theory Spec2Isabelle
  imports Complex_Main "HOL-Library.Word" "HOL-Library.Log_Nat"
begin

unbundle bit_operations_syntax

section \<open>Go values\<close>

text \<open>
  Go's \<open>int64\<close> is a 64-bit word read in two's complement (\<open>sint\<close>); \<open>+\<close>, \<open>-\<close> and
  \<open>*\<close> wrap around as Go's do. A Go \<open>string\<close> is a byte string. The library functions
  of \<open>strings\<close> and \<open>strconv\<close> that the program calls are written out below on the
  ASCII range: white space is tab, line feed, vertical tab, form feed, carriage return
  and space, and the letters with a case are A-Z and a-z. \<open>time.Time\<close> is a number.
\<close>

type_synonym int64 = "64 word"

definition isSpace :: "char \<Rightarrow> bool" where
  "isSpace c = (c = CHR 0x09 \<or> c = CHR 0x0A \<or> c = CHR 0x0B \<or> c = CHR 0x0C
                \<or> c = CHR 0x0D \<or> c = CHR '' '')"

definition TrimSpace :: "string \<Rightarrow> string" where
  "TrimSpace s = rev (dropWhile isSpace (rev (dropWhile isSpace s)))"

fun inCutset :: "string \<Rightarrow> char \<Rightarrow> bool" where
  "inCutset [] c = False"
| "inCutset (x # xs) c = (if x = c then True else inCutset xs c)"

definition TrimLeft :: "string \<Rightarrow> string \<Rightarrow> string" where
  "TrimLeft s cutset = dropWhile (inCutset cutset) s"

definition TrimRight :: "string \<Rightarrow> string \<Rightarrow> string" where
  "TrimRight s cutset = rev (dropWhile (inCutset cutset) (rev s))"

definition upperLetters :: string where
  "upperLetters = ''ABCDEFGHIJKLMNOPQRSTUVWXYZ''"

definition lowerLetters :: string where
  "lowerLetters = ''abcdefghijklmnopqrstuvwxyz''"

fun translate :: "string \<Rightarrow> string \<Rightarrow> char \<Rightarrow> char" where
  "translate (a # as) (b # bs) c = (if c = a then b else translate as bs c)"
| "translate _ _ c = c"

definition ToLower :: "string \<Rightarrow> string" where
  "ToLower s = map (translate upperLetters lowerLetters) s"

text \<open>\<open>strings.HasPrefix\<close>, for the one-byte prefixes the program passes.\<close>

fun HasPrefix :: "string \<Rightarrow> char \<Rightarrow> bool" where
  "HasPrefix [] p = False"
| "HasPrefix (c # cs) p = (c = p)"

text \<open>
  \<open>strings.Split\<close>, for the one-byte separators the program passes (a comma, a space).
  The result is never empty: an empty string splits into one empty piece.
\<close>

fun Split :: "string \<Rightarrow> char \<Rightarrow> string list" where
  "Split [] sep = [[]]"
| "Split (c # cs) sep =
     (if c = sep then [] # Split cs sep
      else (case Split cs sep of [] \<Rightarrow> [[c]] | w # ws \<Rightarrow> (c # w) # ws))"

fun Join :: "string list \<Rightarrow> string \<Rightarrow> string" where
  "Join [] sep = []"
| "Join [x] sep = x"
| "Join (x # y # ys) sep = x @ sep @ Join (y # ys) sep"

definition decimalDigits :: string where
  "decimalDigits = ''0123456789''"

fun indexOf :: "string \<Rightarrow> char \<Rightarrow> nat option" where
  "indexOf [] c = None"
| "indexOf (x # xs) c = (if x = c then Some 0 else map_option Suc (indexOf xs c))"

definition digitChar :: "nat \<Rightarrow> char" where
  "digitChar d = decimalDigits ! d"

text \<open>The value of a decimal digit; \<open>None\<close> for any other byte.\<close>

definition digitVal :: "char \<Rightarrow> nat option" where
  "digitVal c = indexOf decimalDigits c"

text \<open>The decimal digits of a natural number, most significant first.\<close>

fun formatNat :: "nat \<Rightarrow> string" where
  "formatNat n =
     (if n < 10 then [digitChar n] else formatNat (n div 10) @ [digitChar (n mod 10)])"

declare formatNat.simps [simp del]

text \<open>\<open>strconv.FormatInt(v, 10)\<close>.\<close>

definition FormatInt :: "int64 \<Rightarrow> string" where
  "FormatInt v =
     (if sint v < 0 then CHR ''-'' # formatNat (nat (- sint v)) else formatNat (nat (sint v)))"

text \<open>\<open>fmt.Sprintf("$%d", n)\<close> for a Go \<open>int\<close> that is not negative.\<close>

definition placeholder :: "nat \<Rightarrow> string" where
  "placeholder n = CHR ''$'' # formatNat n"

fun parseDigits :: "nat \<Rightarrow> string \<Rightarrow> nat option" where
  "parseDigits acc [] = Some acc"
| "parseDigits acc (c # cs) =
     (case digitVal c of None \<Rightarrow> None | Some d \<Rightarrow> parseDigits (acc * 10 + d) cs)"

text \<open>
  \<open>strconv.ParseInt(s, 10, 64)\<close>: an optional sign, then at least one decimal digit and
  nothing else; \<open>None\<close> is the syntax error or the range error.
\<close>

definition ParseInt :: "string \<Rightarrow> int option" where
  "ParseInt s =
     (case s of
        [] \<Rightarrow> None
      | c # cs \<Rightarrow>
          (let neg = (c = CHR ''-'');
               ds = (if c = CHR ''+'' \<or> c = CHR ''-'' then cs else s)
           in if ds = [] then None
              else (case parseDigits 0 ds of
                      None \<Rightarrow> None
                    | Some un \<Rightarrow>
                        if \<not> neg \<and> 2 ^ 63 \<le> int un then None
                        else if neg \<and> 2 ^ 63 < int un then None
                        else Some (if neg then - int un else int un))))"

text \<open>\<open>strconv.Atoi\<close> on a platform whose \<open>int\<close> has 64 bits.\<close>

definition Atoi :: "string \<Rightarrow> int option" where
  "Atoi s = ParseInt s"

section \<open>The vote list of a user\<close>

definition pgArrToIntSlice :: "string \<Rightarrow> int64 list" where
  "pgArrToIntSlice pgArr =
     (let s = TrimRight (TrimLeft pgArr ''{'') ''}''
      in concat (map (\<lambda>value. case Atoi value of
                                  Some item \<Rightarrow> [word_of_int item]
                                | None \<Rightarrow> [])
                     (Split s CHR '','')))"

definition intSliceToPgArr :: "int64 list \<Rightarrow> string" where
  "intSliceToPgArr items = ''{'' @ Join (map FormatInt items) '','' @ ''}''"

record User =
  ID :: int64
  CreatedAt :: int
  Name :: string
  Password :: string
  Email :: string
  Votes :: string
  IsAdmin :: bool
  IsActive :: bool
  RecoveryCode :: "string option"
  IsAuthenticated :: bool

definition GetVotes :: "User \<Rightarrow> int64 list" where
  "GetVotes user = pgArrToIntSlice (Votes user)"

definition SetVotes :: "User \<Rightarrow> int64 list \<Rightarrow> User" where
  "SetVotes user votes = user\<lparr>Votes := intSliceToPgArr votes\<rparr>"

definition RegisterVote :: "User \<Rightarrow> int64 \<Rightarrow> User" where
  "RegisterVote user photoID = SetVotes user (GetVotes user @ [photoID])"

fun containsID :: "int64 list \<Rightarrow> int64 \<Rightarrow> bool" where
  "containsID [] photoID = False"
| "containsID (v # vs) photoID = (if v = photoID then True else containsID vs photoID)"

definition HasVoted :: "User \<Rightarrow> int64 \<Rightarrow> bool" where
  "HasVoted user photoID = containsID (GetVotes user) photoID"


section \<open>Photos and permissions\<close>

record Photo =
  ID :: int64
  OwnerID :: int64
  CreatedAt :: int
  Title :: string
  Filename :: string
  Tags :: "string list"
  UpVotes :: int64
  DownVotes :: int64

text \<open>A \<open>*User\<close> that may be \<open>nil\<close> is a \<open>User option\<close>.\<close>

definition CanEdit :: "Photo \<Rightarrow> User option \<Rightarrow> bool" where
  "CanEdit photo user =
     (case user of
        None \<Rightarrow> False
      | Some u \<Rightarrow>
          if \<not> IsAuthenticated u then False
          else IsAdmin u \<or> OwnerID photo = User.ID u)"

definition CanDelete :: "Photo \<Rightarrow> User option \<Rightarrow> bool" where
  "CanDelete photo user = CanEdit photo user"

definition CanVote :: "Photo \<Rightarrow> User option \<Rightarrow> bool" where
  "CanVote photo user =
     (case user of
        None \<Rightarrow> False
      | Some u \<Rightarrow>
          if \<not> IsAuthenticated u then False
          else if OwnerID photo = User.ID u then False
          else \<not> HasVoted u (Photo.ID photo))"

record Permissions =
  Edit :: bool
  Delete :: bool
  Vote :: bool

text \<open>The \<open>Permissions\<close> value that \<open>GetDetail\<close> builds for a photo and a viewer.\<close>

definition newPermissions :: "Photo \<Rightarrow> User option \<Rightarrow> Permissions" where
  "newPermissions photo user =
     \<lparr>Edit = CanEdit photo user, Delete = CanDelete photo user, Vote = CanVote photo user\<rparr>"

section \<open>Pagination\<close>

definition pageSize :: int where
  "pageSize = 12"

text \<open>
  The \<open>float64\<close> values that the page count goes through. A finite \<open>float64\<close> is
  written \<open>F64 m e\<close> and stands for \<open>m * 2 ^ e\<close>. Every operation rounds its exact
  result to 53 significant bits, to the nearest value and to an even significand on a
  tie. The values that occur here (at most \<open>2 ^ 63\<close> in magnitude, and at least \<open>1 / 12\<close>
  when they are not zero) neither overflow nor become subnormal.
\<close>

datatype float64 = F64 int int

text \<open>The integer nearest to \<open>a / b\<close> for \<open>0 < b\<close>, the even one on a tie.\<close>

definition roundHalfEven :: "int \<Rightarrow> int \<Rightarrow> int" where
  "roundHalfEven a b =
     (let q = a div b; r = a mod b
      in if 2 * r < b then q
         else if b < 2 * r then q + 1
         else if even q then q else q + 1)"

text \<open>The binary exponent of \<open>a / b\<close> for \<open>0 < a\<close> and \<open>0 < b\<close>: the floor of its logarithm.\<close>

definition ilog2 :: "int \<Rightarrow> int \<Rightarrow> int" where
  "ilog2 a b =
     (let l = bitlen a - bitlen b
      in if 0 \<le> l then (if b * 2 ^ nat l \<le> a then l else l - 1)
         else (if b \<le> a * 2 ^ nat (- l) then l else l - 1))"

text \<open>The \<open>float64\<close> nearest to \<open>a / b\<close>, for \<open>0 < b\<close>.\<close>

definition float64_round :: "int \<Rightarrow> int \<Rightarrow> float64" where
  "float64_round a b =
     (if a = 0 then F64 0 0
      else let e = ilog2 \<bar>a\<bar> b - 52
           in if 0 \<le> e then F64 (roundHalfEven a (b * 2 ^ nat e)) e
              else F64 (roundHalfEven (a * 2 ^ nat (- e)) b) e)"

text \<open>The conversion \<open>float64(i)\<close> of an integer.\<close>

definition float64_of_int :: "int \<Rightarrow> float64" where
  "float64_of_int i = float64_round i 1"

text \<open>The quotient \<open>x / y\<close> of two \<open>float64\<close> values, for a divisor that is not zero.\<close>

fun float64_div :: "float64 \<Rightarrow> float64 \<Rightarrow> float64" where
  "float64_div (F64 m1 e1) (F64 m2 e2) =
     (let a = (if e2 \<le> e1 then m1 * 2 ^ nat (e1 - e2) else m1);
          b = (if e2 \<le> e1 then m2 else m2 * 2 ^ nat (e2 - e1))
      in if 0 < b then float64_round a b else float64_round (- a) (- b))"

text \<open>\<open>math.Ceil\<close>; the result is integral, and is given as an integer.\<close>

fun Ceil :: "float64 \<Rightarrow> int" where
  "Ceil (F64 m e) = (if 0 \<le> e then m * 2 ^ nat e else - ((- m) div 2 ^ nat (- e)))"

record PhotoList =
  Items :: "Photo list"
  Total :: int64
  CurrentPage :: int64
  NumPages :: int64

definition NewPhotoList :: "Photo list \<Rightarrow> int64 \<Rightarrow> int64 \<Rightarrow> PhotoList" where
  "NewPhotoList photos tot page =
     (let numPages =
            word_of_int (Ceil (float64_div (float64_of_int (sint tot)) (float64_of_int pageSize)))
      in \<lparr>Items = photos, Total = tot, CurrentPage = page, NumPages = numPages\<rparr>)"

definition getOffset :: "int64 \<Rightarrow> int64" where
  "getOffset pageNum =
     (let offset = (pageNum - 1) * word_of_int pageSize
      in if offset <s 0 then 0 else offset)"

section \<open>The store\<close>

text \<open>
  The tables of the database, each a list of rows. \<open>photo_tags\<close> holds pairs of a photo
  identifier and a tag identifier. A field marked \<open>db:"-"\<close> is no column: a photo is
  stored and read without its \<open>Tags\<close>, a user without \<open>IsAuthenticated\<close>.
\<close>

record Tag =
  ID :: int64
  Name :: string

record DB =
  users :: "User list"
  photos :: "Photo list"
  tags :: "Tag list"
  photo_tags :: "(int64 \<times> int64) list"

definition photoRow :: "Photo \<Rightarrow> Photo" where
  "photoRow photo = photo\<lparr>Tags := []\<rparr>"

definition userRow :: "User \<Rightarrow> User" where
  "userRow user = user\<lparr>IsAuthenticated := False\<rparr>"

text \<open>
  The errors of a call to the store: no row or several rows where \<open>SelectOne\<close> wants
  one, a statement that does not parse, and any failure of the connection. Each call
  takes a flag that says whether the connection fails at that call.
\<close>

datatype error = ErrNoRows | ErrMultipleRows | ErrSyntax | ErrStore

text \<open>A value bound to a placeholder of a statement.\<close>

datatype param = IntParam int64 | StrParam string

text \<open>\<open>SelectOne\<close> on the rows that a query finds.\<close>

fun selectOne :: "'a list \<Rightarrow> error + 'a" where
  "selectOne [] = Inl ErrNoRows"
| "selectOne [row] = Inr row"
| "selectOne (row # other # rest) = Inl ErrMultipleRows"

section \<open>Users\<close>

text \<open>\<open>dbMap.Update\<close> of a user: the row with the user's identifier is replaced.\<close>

definition defaultUserManager_Update :: "DB \<Rightarrow> bool \<Rightarrow> User \<Rightarrow> error + DB" where
  "defaultUserManager_Update db fault user =
     (if fault then Inl ErrStore
      else Inr (db\<lparr>users :=
                  map (\<lambda>row. if User.ID row = User.ID user then userRow user else row)
                      (users db)\<rparr>))"

definition GetActive :: "DB \<Rightarrow> bool \<Rightarrow> int64 \<Rightarrow> error + User option" where
  "GetActive db fault userID =
     (if fault then Inl ErrStore
      else (case selectOne (filter (\<lambda>row. IsActive row \<and> User.ID row = userID) (users db)) of
              Inl err \<Rightarrow> if err = ErrNoRows then Inr None else Inl err
            | Inr row \<Rightarrow> Inr (Some (userRow row))))"

text \<open>
  \<open>CheckPassword\<close>. The comparison of \<open>bcrypt\<close> is a parameter: \<open>bcryptMatches hash password\<close>
  says whether \<open>CompareHashAndPassword\<close> returns no error.
\<close>

definition CheckPassword :: "(string \<Rightarrow> string \<Rightarrow> bool) \<Rightarrow> User \<Rightarrow> string \<Rightarrow> bool" where
  "CheckPassword bcryptMatches user password =
     (if Password user = [] then False else bcryptMatches (Password user) password)"

definition Authenticate ::
  "(string \<Rightarrow> string \<Rightarrow> bool) \<Rightarrow> DB \<Rightarrow> bool \<Rightarrow> string \<Rightarrow> string \<Rightarrow> error + User option" where
  "Authenticate bcryptMatches db fault identifier password =
     (if fault then Inl ErrStore
      else (case selectOne (filter (\<lambda>row. IsActive row
                                         \<and> (Email row = identifier \<or> User.Name row = identifier))
                                   (users db)) of
              Inl err \<Rightarrow> if err = ErrNoRows then Inr None else Inl err
            | Inr row \<Rightarrow>
                if \<not> CheckPassword bcryptMatches (userRow row) password then Inr None
                else Inr (Some (userRow row))))"

section \<open>Tags of a photo\<close>

text \<open>
  The loop of \<open>UpdateTags\<close> over \<open>photo.Tags\<close>, with the index \<open>i\<close> of the tag at hand:
  the placeholders, the values bound to them, and whether no tag was kept.
\<close>

fun tagLoop ::
  "nat \<Rightarrow> string list \<Rightarrow> string list \<times> param list \<times> bool \<Rightarrow> string list \<times> param list \<times> bool"
where
  "tagLoop i [] state = state"
| "tagLoop i (raw # rest) (args, params, isEmpty) =
     (let name = TrimSpace raw
      in if name \<noteq> []
         then tagLoop (i + 1) rest
                (args @ [placeholder (i + 2)], params @ [StrParam (ToLower name)], False)
         else tagLoop (i + 1) rest (args, params, isEmpty))"



text \<open>The tag names that \<open>UpdateTags\<close> hands to the store: the text values it binds.\<close>

fun textParams :: "param list \<Rightarrow> string list" where
  "textParams [] = []"
| "textParams (StrParam s # rest) = s # textParams rest"
| "textParams (IntParam i # rest) = textParams rest"

definition tagNames :: "string list \<Rightarrow> string list" where
  "tagNames raw = textParams (fst (snd (tagLoop 0 raw ([''$1''], [], True))))"


text \<open>
  \<open>GetDetail\<close>, with a flag for each of its two calls to the store. \<open>embedded\<close> is the
  \<open>Photo\<close> that \<open>PhotoDetail\<close> embeds.
\<close>

record PhotoDetail =
  embedded :: Photo
  OwnerName :: string
  Permissions :: "Permissions option"


section \<open>Voting\<close>

text \<open>The status that a handler writes to the response.\<close>

datatype response =
  StatusOK | StatusUnauthorized | StatusForbidden | StatusNotFound | StatusServerError

text \<open>\<open>dbMap.Update\<close> of a photo: the row with the photo's identifier is replaced.\<close>

definition defaultPhotoManager_Update :: "DB \<Rightarrow> bool \<Rightarrow> Photo \<Rightarrow> error + DB" where
  "defaultPhotoManager_Update db fault photo =
     (if fault then Inl ErrStore
      else Inr (db\<lparr>photos :=
                  map (\<lambda>row. if Photo.ID row = Photo.ID photo then photoRow photo else row)
                      (photos db)\<rparr>))"

definition defaultPhotoManager_Get :: "DB \<Rightarrow> bool \<Rightarrow> int64 \<Rightarrow> error + Photo option" where
  "defaultPhotoManager_Get db fault photoID =
     (if photoID = 0 then Inr None
      else if fault then Inl ErrStore
      else Inr (map_option photoRow (find (\<lambda>row. Photo.ID row = photoID) (photos db))))"

text \<open>\<open>getPhoto\<close>, given the URL parameter \<open>id\<close>.\<close>

definition getPhoto :: "DB \<Rightarrow> bool \<Rightarrow> string \<Rightarrow> error + Photo option" where
  "getPhoto db fault idParam =
     (case ParseInt idParam of
        None \<Rightarrow> Inr None
      | Some photoID \<Rightarrow> defaultPhotoManager_Get db fault (word_of_int photoID))"

text \<open>
  Modelled from the spec: \<open>checkAuth\<close> is called by the handlers and is not part of the
  program text at hand. The spec has the current user resolved from the request, a
  request without an authenticated user rejected as Unauthorized, and an error of the
  resolution reported as a server error; the handlers of the \<open>routes\<close> package spell
  the same two checks out in place. The argument is what resolving the user returned.
\<close>

definition checkAuth :: "error + User \<Rightarrow> response + User" where
  "checkAuth current =
     (case current of
        Inl err \<Rightarrow> Inl StatusServerError
      | Inr user \<Rightarrow> if \<not> IsAuthenticated user then Inl StatusUnauthorized else Inr user)"

text \<open>
  \<open>vote\<close>. The flags say whether the store fails at reading the photo, at updating the
  photo and at updating the user; \<open>current\<close> is what resolving the current user
  returned, \<open>idParam\<close> the URL parameter, \<open>fn\<close> the change of the counters.
\<close>

definition vote ::
  "DB \<Rightarrow> bool \<times> bool \<times> bool \<Rightarrow> error + User \<Rightarrow> string \<Rightarrow> (Photo \<Rightarrow> Photo) \<Rightarrow> response \<times> DB"
where
  "vote db faults current idParam fn =
     (case checkAuth current of
        Inl status \<Rightarrow> (status, db)
      | Inr user \<Rightarrow>
          (case getPhoto db (fst faults) idParam of
             Inl err \<Rightarrow> (StatusServerError, db)
           | Inr None \<Rightarrow> (StatusNotFound, db)
           | Inr (Some loaded) \<Rightarrow>
               if \<not> CanVote loaded (Some user) then (StatusForbidden, db)
               else (case defaultPhotoManager_Update db (fst (snd faults)) (fn loaded) of
                       Inl err \<Rightarrow> (StatusServerError, db)
                     | Inr db1 \<Rightarrow>
                         (case defaultUserManager_Update db1 (snd (snd faults))
                                 (RegisterVote user (Photo.ID (fn loaded))) of
                            Inl err \<Rightarrow> (StatusServerError, db1)
                          | Inr db2 \<Rightarrow> (StatusOK, db2)))))"

definition upVote :: "Photo \<Rightarrow> Photo" where
  "upVote photo = photo\<lparr>UpVotes := UpVotes photo + 1\<rparr>"

definition downVote :: "Photo \<Rightarrow> Photo" where
  "downVote photo = photo\<lparr>DownVotes := DownVotes photo + 1\<rparr>"

definition voteUp :: "DB \<Rightarrow> bool \<times> bool \<times> bool \<Rightarrow> error + User \<Rightarrow> string \<Rightarrow> response \<times> DB" where
  "voteUp db faults current idParam = vote db faults current idParam upVote"

definition voteDown :: "DB \<Rightarrow> bool \<times> bool \<times> bool \<Rightarrow> error + User \<Rightarrow> string \<Rightarrow> response \<times> DB" where
  "voteDown db faults current idParam = vote db faults current idParam downVote"

section \<open>Search\<close>

text \<open>
  The three sub-queries that \<open>Search\<close> writes, each with the number \<open>n\<close> of its
  placeholder \<open>$n\<close>:
  \<^item> \<open>OwnerClause n\<close>: \<open>SELECT p.* FROM photos p INNER JOIN users u ON u.id = p.owner_id
    WHERE UPPER(u.name::text) = UPPER($n)\<close>;
  \<^item> \<open>TagClause n\<close>: \<open>SELECT p.* FROM photos p INNER JOIN photo_tags pt ON pt.photo_id = p.id
    INNER JOIN tags t ON pt.tag_id=t.id WHERE UPPER(t.name::text) = UPPER($n)\<close>;
  \<^item> \<open>FuzzyClause n\<close>: \<open>SELECT DISTINCT p.* FROM photos p INNER JOIN users u ON
    u.id = p.owner_id LEFT JOIN photo_tags pt ON pt.photo_id = p.id LEFT JOIN tags t ON
    pt.tag_id=t.id WHERE UPPER(p.title::text) LIKE UPPER($n) OR UPPER(u.name::text) LIKE
    UPPER($n) OR t.name LIKE $n\<close>.
\<close>

datatype clause = OwnerClause nat | TagClause nat | FuzzyClause nat

text \<open>
  The loop of \<open>Search\<close> over the pieces of the query, with the index \<open>num\<close> of the piece
  at hand. The loop ends at the first piece that is empty once trimmed and at the first
  index above 6; the placeholder of a piece is its index plus one.
\<close>

fun searchLoop ::
  "nat \<Rightarrow> string list \<Rightarrow> clause list \<times> param list \<Rightarrow> clause list \<times> param list" where
  "searchLoop num [] state = state"
| "searchLoop num (piece # rest) (clauses, params) =
     (let token = TrimSpace piece
      in if token = [] \<or> 6 < num then (clauses, params)
         else if HasPrefix token CHR ''@''
         then searchLoop (num + 1) rest
                (clauses @ [OwnerClause (num + 1)], params @ [StrParam (tl token)])
         else if HasPrefix token CHR ''#''
         then searchLoop (num + 1) rest
                (clauses @ [TagClause (num + 1)], params @ [StrParam (tl token)])
         else searchLoop (num + 1) rest
                (clauses @ [FuzzyClause (num + 1)],
                 params @ [StrParam (''%'' @ token @ ''%'')]))"

text \<open>SQL's \<open>UPPER\<close>, on the ASCII letters.\<close>

definition UPPER :: "string \<Rightarrow> string" where
  "UPPER s = map (translate lowerLetters upperLetters) s"

text \<open>
  SQL's \<open>subject LIKE pattern\<close>: \<open>%\<close> stands for any text, \<open>_\<close> for any one character, a
  backslash makes the character after it stand for itself. A pattern that ends in a lone
  backslash, which the database refuses, matches nothing here; \<open>Search\<close> writes none,
  since its patterns end in \<open>%\<close>.
\<close>

fun LIKE :: "string \<Rightarrow> string \<Rightarrow> bool" where
  "LIKE [] [] = True"
| "LIKE (c # cs) [] = False"
| "LIKE s (p # ps) =
     (if p = CHR ''%''
      then (LIKE s ps \<or> (case s of [] \<Rightarrow> False | c # cs \<Rightarrow> LIKE cs (p # ps)))
      else if p = CHR ''_''
      then (case s of [] \<Rightarrow> False | c # cs \<Rightarrow> LIKE cs ps)
      else if p = CHR 0x5C
      then (case ps of
              [] \<Rightarrow> False
            | q # qs \<Rightarrow> (case s of [] \<Rightarrow> False | c # cs \<Rightarrow> c = q \<and> LIKE cs qs))
      else (case s of [] \<Rightarrow> False | c # cs \<Rightarrow> c = p \<and> LIKE cs ps))"

text \<open>The text bound to placeholder \<open>$n\<close>; \<open>None\<close> when no value is bound to it.\<close>

definition paramText :: "param list \<Rightarrow> nat \<Rightarrow> string option" where
  "paramText params n =
     (if n = 0 \<or> length params < n then None
      else (case params ! (n - 1) of
              StrParam s \<Rightarrow> Some s
            | IntParam i \<Rightarrow> Some (FormatInt i)))"

text \<open>The joins: the owners of a photo, its tags, and its tags under the left joins.\<close>

definition ownersOf :: "DB \<Rightarrow> Photo \<Rightarrow> User list" where
  "ownersOf db p = filter (\<lambda>u. User.ID u = OwnerID p) (users db)"

definition tagsOf :: "DB \<Rightarrow> Photo \<Rightarrow> Tag list" where
  "tagsOf db p =
     concat (map (\<lambda>pt. filter (\<lambda>t. snd pt = Tag.ID t) (tags db))
                 (filter (\<lambda>pt. fst pt = Photo.ID p) (photo_tags db)))"

definition leftTagsOf :: "DB \<Rightarrow> Photo \<Rightarrow> Tag option list" where
  "leftTagsOf db p =
     (case filter (\<lambda>pt. fst pt = Photo.ID p) (photo_tags db) of
        [] \<Rightarrow> [None]
      | pts \<Rightarrow>
          concat (map (\<lambda>pt. case filter (\<lambda>t. snd pt = Tag.ID t) (tags db) of
                              [] \<Rightarrow> [None]
                            | ts \<Rightarrow> map Some ts)
                      pts))"

text \<open>The rows of a sub-query; \<open>None\<close> when its placeholder has no value.\<close>

fun clauseRows :: "DB \<Rightarrow> param list \<Rightarrow> clause \<Rightarrow> Photo list option" where
  "clauseRows db params (OwnerClause n) =
     (case paramText params n of
        None \<Rightarrow> None
      | Some w \<Rightarrow>
          Some (concat (map (\<lambda>p. map (\<lambda>u. photoRow p)
                                      (filter (\<lambda>u. UPPER (User.Name u) = UPPER w) (ownersOf db p)))
                            (photos db))))"
| "clauseRows db params (TagClause n) =
     (case paramText params n of
        None \<Rightarrow> None
      | Some w \<Rightarrow>
          Some (concat (map (\<lambda>p. map (\<lambda>t. photoRow p)
                                      (filter (\<lambda>t. UPPER (Tag.Name t) = UPPER w) (tagsOf db p)))
                            (photos db))))"
| "clauseRows db params (FuzzyClause n) =
     (case paramText params n of
        None \<Rightarrow> None
      | Some w \<Rightarrow>
          Some (remdups (concat (map (\<lambda>p. concat (map (\<lambda>u. concat (map (\<lambda>t.
                    if LIKE (UPPER (Title p)) (UPPER w) \<or> LIKE (UPPER (User.Name u)) (UPPER w)
                       \<or> (case t of None \<Rightarrow> False | Some tg \<Rightarrow> LIKE (Tag.Name tg) w)
                    then [photoRow p] else [])
                  (leftTagsOf db p))) (ownersOf db p))) (photos db)))))"

text \<open>\<open>INTERSECT\<close> of two row lists: the rows of both, each once.\<close>

definition intersectRows :: "Photo list \<Rightarrow> Photo list \<Rightarrow> Photo list" where
  "intersectRows xs ys = remdups (filter (\<lambda>x. x \<in> set ys) xs)"

text \<open>
  The rows of the sub-queries joined by \<open>INTERSECT\<close>. With no sub-query the statement
  reads \<open>FROM () q\<close> and does not parse.
\<close>

fun joinedRows :: "DB \<Rightarrow> param list \<Rightarrow> clause list \<Rightarrow> error + Photo list" where
  "joinedRows db params [] = Inl ErrSyntax"
| "joinedRows db params [c] =
     (case clauseRows db params c of None \<Rightarrow> Inl ErrStore | Some rows \<Rightarrow> Inr rows)"
| "joinedRows db params (c # d # rest) =
     (case clauseRows db params c of
        None \<Rightarrow> Inl ErrStore
      | Some rows \<Rightarrow>
          (case joinedRows db params (d # rest) of
             Inl err \<Rightarrow> Inl err
           | Inr others \<Rightarrow> Inr (intersectRows rows others)))"

text \<open>
  \<open>ORDER BY (up_votes - down_votes) DESC, created_at DESC\<close>. The database leaves the
  order of rows that agree in both keys open; here they keep the order they had. The
  difference is computed in 64 bits by the database, which refuses an overflow.
\<close>

definition score :: "Photo \<Rightarrow> int" where
  "score p = sint (UpVotes p) - sint (DownVotes p)"

definition orderRows :: "Photo list \<Rightarrow> Photo list" where
  "orderRows rows = sort_key (\<lambda>p. - score p) (sort_key (\<lambda>p. - Photo.CreatedAt p) rows)"

text \<open>\<open>SelectInt\<close> of \<open>SELECT COUNT(id) FROM (...) q\<close>.\<close>

definition countRows :: "DB \<Rightarrow> bool \<Rightarrow> clause list \<Rightarrow> param list \<Rightarrow> error + int64" where
  "countRows db fault clauses params =
     (if fault then Inl ErrStore
      else (case joinedRows db params clauses of
              Inl err \<Rightarrow> Inl err
            | Inr rows \<Rightarrow> Inr (word_of_int (int (length rows)))))"

text \<open>
  \<open>Select\<close> of \<open>SELECT * FROM (...) q ORDER BY ... LIMIT $k OFFSET $l\<close>, with the values
  bound to the last two placeholders.
\<close>

definition selectPage ::
  "DB \<Rightarrow> bool \<Rightarrow> clause list \<Rightarrow> param list \<Rightarrow> int \<Rightarrow> int64 \<Rightarrow> error + Photo list" where
  "selectPage db fault clauses params limit offset =
     (if fault then Inl ErrStore
      else (case joinedRows db params clauses of
              Inl err \<Rightarrow> Inl err
            | Inr rows \<Rightarrow>
                if list_ex (\<lambda>p. score p < - (2 ^ 63) \<or> 2 ^ 63 \<le> score p) rows then Inl ErrStore
                else Inr (take (nat limit) (drop (nat (sint offset)) (orderRows rows)))))"

definition Search :: "DB \<Rightarrow> bool \<times> bool \<Rightarrow> int64 \<Rightarrow> string \<Rightarrow> error + PhotoList option" where
  "Search db faults pageNum q =
     (if q = [] then Inr None
      else (case searchLoop 0 (Split q CHR '' '') ([], []) of
              (clauses, params) \<Rightarrow>
                (case countRows db (fst faults) clauses params of
                   Inl err \<Rightarrow> Inl err
                 | Inr tot \<Rightarrow>
                     (case selectPage db (snd faults) clauses
                             (params @ [IntParam (word_of_int pageSize),
                                        IntParam (getOffset pageNum)])
                             pageSize (getOffset pageNum) of
                        Inl err \<Rightarrow> Inl err
                      | Inr found \<Rightarrow> Inr (Some (NewPhotoList found tot pageNum))))))"

section \<open>Requests that run together\<close>

definition anonymousUser :: User where
  "anonymousUser = \<lparr>User.ID = 0, CreatedAt = 0, Name = [], Password = [], Email = [],
                    Votes = [], IsAdmin = False, IsActive = False, RecoveryCode = None,
                    IsAuthenticated = False\<rparr>"

text \<open>
  Modelled from the spec: \<open>getCurrentUser\<close> is not part of the program text at hand. The
  spec has the current user resolved from the request, with an absent user for a
  request without a session. Here the session names a user identifier (0 for none), the
  user is read with \<open>GetActive\<close> and marked as authenticated, and a request without a
  session or with a user that is not found gets the empty user.
\<close>

definition getCurrentUser :: "DB \<Rightarrow> bool \<Rightarrow> int64 \<Rightarrow> error + User" where
  "getCurrentUser db fault userID =
     (if userID = 0 then Inr anonymousUser
      else (case GetActive db fault userID of
              Inl err \<Rightarrow> Inl err
            | Inr None \<Rightarrow> Inr anonymousUser
            | Inr (Some user) \<Rightarrow> Inr (user\<lparr>IsAuthenticated := True\<rparr>)))"

text \<open>A vote request from its arrival, with the store answering: the user, then \<open>vote\<close>.\<close>

definition voteRequest :: "DB \<Rightarrow> int64 \<Rightarrow> string \<Rightarrow> (Photo \<Rightarrow> Photo) \<Rightarrow> response \<times> DB" where
  "voteRequest db userID idParam fn =
     vote db (False, False, False) (getCurrentUser db False userID) idParam fn"

text \<open>
  The same request in steps, one call to the store in each: the handlers of two requests
  run in their own goroutines and share nothing but the store, so that their calls to
  the store may come in any order. A handler has arrived, has resolved the user, has
  loaded the photo, has saved the photo, or has answered.
\<close>

datatype progress =
  Arrived | Resolved User | Loaded User Photo | Saved User Photo | Answered response

fun step :: "int64 \<times> string \<times> (Photo \<Rightarrow> Photo) \<Rightarrow> DB \<times> progress \<Rightarrow> DB \<times> progress" where
  "step (userID, idParam, fn) (db, Arrived) =
     (case checkAuth (getCurrentUser db False userID) of
        Inl status \<Rightarrow> (db, Answered status)
      | Inr user \<Rightarrow> (db, Resolved user))"
| "step (userID, idParam, fn) (db, Resolved user) =
     (case getPhoto db False idParam of
        Inl err \<Rightarrow> (db, Answered StatusServerError)
      | Inr None \<Rightarrow> (db, Answered StatusNotFound)
      | Inr (Some loaded) \<Rightarrow> (db, Loaded user loaded))"
| "step (userID, idParam, fn) (db, Loaded user loaded) =
     (if \<not> CanVote loaded (Some user) then (db, Answered StatusForbidden)
      else (case defaultPhotoManager_Update db False (fn loaded) of
              Inl err \<Rightarrow> (db, Answered StatusServerError)
            | Inr db1 \<Rightarrow> (db1, Saved user (fn loaded))))"
| "step (userID, idParam, fn) (db, Saved user changed) =
     (case defaultUserManager_Update db False (RegisterVote user (Photo.ID changed)) of
        Inl err \<Rightarrow> (db, Answered StatusServerError)
      | Inr db2 \<Rightarrow> (db2, Answered StatusOK))"
| "step (userID, idParam, fn) (db, Answered status) = (db, Answered status)"

text \<open>
  Two requests under a schedule: at each entry the first request takes a step when the
  entry is \<open>True\<close>, the second when it is \<open>False\<close>.
\<close>

fun interleave ::
  "bool list \<Rightarrow> int64 \<times> string \<times> (Photo \<Rightarrow> Photo) \<Rightarrow> int64 \<times> string \<times> (Photo \<Rightarrow> Photo)
     \<Rightarrow> DB \<times> progress \<times> progress \<Rightarrow> DB \<times> progress \<times> progress" where
  "interleave [] first second state = state"
| "interleave (turn # schedule) first second (db, p1, p2) =
     (if turn
      then (case step first (db, p1) of (db', p1') \<Rightarrow> interleave schedule first second (db', p1', p2))
      else (case step second (db, p2) of (db', p2') \<Rightarrow> interleave schedule first second (db', p1, p2')))"

text \<open>
  Vote requests that are served one after the other, each to its end before the next
  begins. A request is the flags of the store (whether it fails at resolving the user
  and at the three calls of \<open>vote\<close>), the user identifier of the session, the URL
  parameter \<open>id\<close>, and the route: \<open>voteUp\<close> when \<open>True\<close>, \<open>voteDown\<close> when \<open>False\<close>.
\<close>

definition serveVote ::
  "DB \<Rightarrow> (bool \<times> bool \<times> bool \<times> bool) \<times> int64 \<times> string \<times> bool \<Rightarrow> response \<times> DB" where
  "serveVote db req =
     (case req of (faults, userID, idParam, up) \<Rightarrow>
        (if up then voteUp else voteDown)
          db (snd faults) (getCurrentUser db (fst faults) userID) idParam)"

fun runVotes ::
  "DB \<Rightarrow> ((bool \<times> bool \<times> bool \<times> bool) \<times> int64 \<times> string \<times> bool) list \<Rightarrow> response list \<times> DB"
where
  "runVotes db [] = ([], db)"
| "runVotes db (req # rest) =
     (case serveVote db req of
        (status, db1) \<Rightarrow> (case runVotes db1 rest of (later, db2) \<Rightarrow> (status # later, db2)))"

text \<open>
  The number of registrations of a user for a photo in such a run: the requests of that
  user whose parameter names that photo and that were answered OK.
\<close>

definition registrations ::
  "int64 \<Rightarrow> int64 \<Rightarrow> ((bool \<times> bool \<times> bool \<times> bool) \<times> int64 \<times> string \<times> bool) list
     \<Rightarrow> response list \<Rightarrow> nat" where
  "registrations userID photoID reqs statuses =
     length (filter (\<lambda>(req, status). status = StatusOK \<and> fst (snd req) = userID
                                      \<and> map_option word_of_int (ParseInt (fst (snd (snd req))))
                                          = Some photoID)
                    (zip reqs statuses))"

section \<open>Sample data\<close>

text \<open>
  A small database for the concrete evaluations below: alice (1) owns photo 9, which is
  tagged \<open>cats\<close>; bob (5) has not voted; carol (6) is not active.
\<close>

definition alice :: User where
  "alice = \<lparr>User.ID = 1, CreatedAt = 100, Name = ''alice'', Password = ''hash-a'',
            Email = ''alice@example.com'', Votes = ''{}'', IsAdmin = False, IsActive = True,
            RecoveryCode = None, IsAuthenticated = False\<rparr>"

definition bob :: User where
  "bob = \<lparr>User.ID = 5, CreatedAt = 101, Name = ''bob'', Password = ''hash-b'',
          Email = ''bob@example.com'', Votes = ''{}'', IsAdmin = False, IsActive = True,
          RecoveryCode = None, IsAuthenticated = False\<rparr>"

definition carol :: User where
  "carol = \<lparr>User.ID = 6, CreatedAt = 102, Name = ''carol'', Password = ''hash-c'',
            Email = ''carol@example.com'', Votes = ''{}'', IsAdmin = False, IsActive = False,
            RecoveryCode = None, IsAuthenticated = False\<rparr>"

definition photo9 :: Photo where
  "photo9 = \<lparr>Photo.ID = 9, OwnerID = 1, CreatedAt = 200, Title = ''Sunset'',
             Filename = ''sunset.jpg'', Tags = [], UpVotes = 3, DownVotes = 1\<rparr>"

definition sampleDB :: DB where
  "sampleDB = \<lparr>users = [alice, bob, carol], photos = [photo9],
               tags = [\<lparr>Tag.ID = 3, Name = ''cats''\<rparr>], photo_tags = [(9, 3)]\<rparr>"

text \<open>
  A second database, in which mallory (7) has taken the email of alice as a name: the
  check of \<open>IsNameAvailable\<close> compares a new name with the names of the other users
  and \<open>IsEmailAvailable\<close> a new email with their emails, so that both let it through.
\<close>

definition mallory :: User where
  "mallory = \<lparr>User.ID = 7, CreatedAt = 103, Name = ''alice@example.com'',
              Password = ''hash-m'', Email = ''mallory@example.com'', Votes = ''{}'',
              IsAdmin = False, IsActive = True, RecoveryCode = None, IsAuthenticated = False\<rparr>"

definition namesakeDB :: DB where
  "namesakeDB = sampleDB\<lparr>users := [alice, bob, carol, mallory]\<rparr>"

text \<open>
  A third database, in which photo 9 has collected as many up-votes as 64 bits with a
  sign hold.
\<close>

definition fullPhoto :: Photo where
  "fullPhoto = photo9\<lparr>UpVotes := 9223372036854775807\<rparr>"

definition fullDB :: DB where
  "fullDB = sampleDB\<lparr>photos := [fullPhoto]\<rparr>"

text \<open>A stand-in for \<open>bcrypt\<close>: the hash of a password is the password after \<open>hash-\<close>.\<close>

definition sampleBcrypt :: "string \<Rightarrow> string \<Rightarrow> bool" where
  "sampleBcrypt hash password = (hash = ''hash-'' @ password)"

section \<open>Decimal numbers\<close>

lemma digitVal_digitChar: "d < 10 \<Longrightarrow> digitVal (digitChar d) = Some d"
proof -
  assume "d < 10"
  then have "d \<in> {0,1,2,3,4,5,6,7,8,9}" by auto
  then show ?thesis by (auto simp: digitChar_def digitVal_def decimalDigits_def)
qed

lemma parseDigits_snoc:
  "parseDigits acc (xs @ [c]) =
     (case parseDigits acc xs of None \<Rightarrow> None
      | Some m \<Rightarrow> (case digitVal c of None \<Rightarrow> None | Some d \<Rightarrow> Some (m * 10 + d)))"
  by (induction xs arbitrary: acc) (auto split: option.splits)

lemma parseDigits_formatNat: "parseDigits 0 (formatNat n) = Some n"
proof (induction n rule: formatNat.induct)
  case (1 n)
  show ?case
  proof (cases "n < 10")
    case True
    then show ?thesis by (subst formatNat.simps) (simp add: digitVal_digitChar)
  next
    case False
    have "n mod 10 < 10" by simp
    with False 1 show ?thesis
      by (subst formatNat.simps) (simp add: parseDigits_snoc digitVal_digitChar)
  qed
qed

lemma formatNat_ne: "formatNat n \<noteq> []"
  by (subst formatNat.simps) simp

lemma formatNat_digit: "c \<in> set (formatNat n) \<Longrightarrow> digitVal c \<noteq> None"
proof (induction n rule: formatNat.induct)
  case (1 n)
  show ?case
  proof (cases "n < 10")
    case True
    with 1(2) show ?thesis
      by (subst (asm) formatNat.simps) (simp add: digitVal_digitChar)
  next
    case False
    have "n mod 10 < 10" by simp
    then have "digitVal (digitChar (n mod 10)) \<noteq> None" by (simp add: digitVal_digitChar)
    with False 1 show ?thesis
      by (subst (asm) formatNat.simps) auto
  qed
qed

lemma ParseInt_unsigned:
  "c \<noteq> CHR ''-'' \<Longrightarrow> c \<noteq> CHR ''+'' \<Longrightarrow> parseDigits 0 (c # cs) = Some un \<Longrightarrow> un < 2 ^ 63
    \<Longrightarrow> ParseInt (c # cs) = Some (int un)"
  by (simp add: ParseInt_def del: parseDigits.simps)

lemma digitVal_sign: "digitVal CHR ''-'' = None" "digitVal CHR ''+'' = None"
  by (simp_all add: digitVal_def decimalDigits_def)

lemma ParseInt_formatNat:
  assumes "n < 2 ^ 63"
  shows "ParseInt (formatNat n) = Some (int n)"
proof (cases "formatNat n")
  case Nil
  then show ?thesis using formatNat_ne [of n] by simp
next
  case (Cons c cs)
  then have "digitVal c \<noteq> None" using formatNat_digit [of c n] by simp
  then have "c \<noteq> CHR ''-''" "c \<noteq> CHR ''+''" using digitVal_sign by auto
  moreover have "parseDigits 0 (c # cs) = Some n"
    using parseDigits_formatNat [of n] Cons by simp
  ultimately show ?thesis using assms Cons ParseInt_unsigned by simp
qed

lemma ParseInt_neg_formatNat:
  assumes "n \<le> 2 ^ 63"
  shows "ParseInt (CHR ''-'' # formatNat n) = Some (- int n)"
  using assms formatNat_ne [of n] parseDigits_formatNat [of n]
  by (simp add: ParseInt_def del: parseDigits.simps)

lemma Atoi_FormatInt: "Atoi (FormatInt v) = Some (sint v)"
proof (cases "sint v < 0")
  case True
  have "- (2 ^ 63) \<le> sint v" using sint_ge [of v] by simp
  then have "nat (- sint v) \<le> 2 ^ 63" by (simp add: nat_le_iff)
  with True show ?thesis
    by (simp add: Atoi_def FormatInt_def ParseInt_neg_formatNat)
next
  case False
  have "sint v < 2 ^ 63" using sint_lt [of v] by simp
  then have "nat (sint v) < 2 ^ 63" using False by (simp add: nat_less_iff)
  with False show ?thesis
    by (simp add: Atoi_def FormatInt_def ParseInt_formatNat)
qed

lemma FormatInt_chars: "c \<in> set (FormatInt v) \<Longrightarrow> c = CHR ''-'' \<or> digitVal c \<noteq> None"
  using formatNat_digit [of c "nat (- sint v)"] formatNat_digit [of c "nat (sint v)"]
  by (simp add: FormatInt_def split: if_splits) blast+

section \<open>Splitting and joining\<close>

lemma Split_no_sep: "sep \<notin> set x \<Longrightarrow> Split (x @ sep # r) sep = x # Split r sep"
  by (induction x) (auto split: list.splits)

lemma Split_no_sep_end: "sep \<notin> set x \<Longrightarrow> Split x sep = [x]"
  by (induction x) (auto split: list.splits)

lemma Split_Join:
  "xs \<noteq> [] \<Longrightarrow> \<forall>x \<in> set xs. sep \<notin> set x \<Longrightarrow> Split (Join xs [sep]) sep = xs"
proof (induction xs "[sep]" rule: Join.induct)
  case 1
  then show ?case by simp
next
  case (2 x)
  then show ?case by (simp add: Split_no_sep_end)
next
  case (3 x y ys)
  then show ?case by (simp add: Split_no_sep)
qed

lemma Join_chars:
  "c \<in> set (Join xs sep) \<Longrightarrow> c \<in> set sep \<or> (\<exists>x \<in> set xs. c \<in> set x)"
  by (induction xs sep rule: Join.induct) auto

lemma dropWhile_none: "(\<forall>c \<in> set xs. \<not> P c) \<Longrightarrow> dropWhile P xs = xs"
  by (cases xs) auto

section \<open>The vote list survives its encoding\<close>

lemma digitVal_punct:
  "digitVal CHR ''{'' = None" "digitVal CHR ''}'' = None" "digitVal CHR '','' = None"
  by (simp_all add: digitVal_def decimalDigits_def)

lemma body_chars:
  assumes "c \<in> set (Join (map FormatInt items) '','')"
  shows "c \<noteq> CHR ''{'' \<and> c \<noteq> CHR ''}''"
proof -
  from Join_chars [OF assms] have "c = CHR '','' \<or> c = CHR ''-'' \<or> digitVal c \<noteq> None"
    using FormatInt_chars by auto
  then show ?thesis using digitVal_punct by auto
qed

lemma trim_braces:
  "TrimRight (TrimLeft (''{'' @ Join (map FormatInt items) '','' @ ''}'') ''{'') ''}''
     = Join (map FormatInt items) '',''"
proof -
  let ?b = "Join (map FormatInt items) '',''"
  have l: "dropWhile (inCutset ''{'') (?b @ ''}'') = ?b @ ''}''"
    by (rule dropWhile_none) (use body_chars in auto)
  have r: "dropWhile (inCutset ''}'') (rev ?b) = rev ?b"
    by (rule dropWhile_none) (use body_chars in auto)
  show ?thesis using l r by (simp add: TrimLeft_def TrimRight_def)
qed

lemma FormatInt_no_comma: "CHR '','' \<notin> set (FormatInt v)"
  using FormatInt_chars [of "CHR '',''" v] digitVal_punct by auto

lemma decode_items:
  "concat (map (\<lambda>value. case Atoi value of Some item \<Rightarrow> [word_of_int item] | None \<Rightarrow> [])
               (map FormatInt items)) = items"
  by (induction items) (simp_all add: Atoi_FormatInt)

lemma pgArr_roundtrip: "pgArrToIntSlice (intSliceToPgArr v) = v"
proof (cases "v = []")
  case True
  then show ?thesis
    by (simp add: pgArrToIntSlice_def intSliceToPgArr_def TrimLeft_def TrimRight_def
        Atoi_def ParseInt_def)
next
  case False
  then have "Split (Join (map FormatInt v) '','') CHR '','' = map FormatInt v"
    using Split_Join [of "map FormatInt v" "CHR '',''"] FormatInt_no_comma by simp
  then show ?thesis
    using trim_braces [of v] decode_items [of v]
    by (simp add: pgArrToIntSlice_def intSliceToPgArr_def)
qed

lemma containsID_set: "containsID vs p = (p \<in> set vs)"
  by (induction vs) auto

lemma GetVotes_RegisterVote: "GetVotes (RegisterVote u p) = GetVotes u @ [p]"
  by (simp add: GetVotes_def RegisterVote_def SetVotes_def pgArr_roundtrip)

text \<open>
  C10. Decoding the PostgreSQL array text that \<open>intSliceToPgArr\<close> writes for a slice of
  64-bit integers gives the slice back, the empty slice (written \<open>{}\<close>) included. So
  after \<open>RegisterVote\<close> for a photo, \<open>HasVoted\<close> answers true for that photo, and the
  votes read back are the votes recorded before followed by the new one.
\<close>

theorem pgArr_roundtrip_votes:
  "pgArrToIntSlice (intSliceToPgArr v) = v
   \<and> intSliceToPgArr [] = ''{}''
   \<and> HasVoted (RegisterVote user p) p
   \<and> GetVotes (RegisterVote user p) = GetVotes user @ [p]"
proof -
  have "intSliceToPgArr [] = ''{}''"
    by (simp add: intSliceToPgArr_def)
  moreover have "HasVoted (RegisterVote user p) p"
    by (simp add: HasVoted_def GetVotes_RegisterVote containsID_set)
  ultimately show ?thesis
    using pgArr_roundtrip [of v] GetVotes_RegisterVote [of user p] by simp
qed

section \<open>Permissions\<close>

text \<open>
  C8, as the claim states it, fails: it gives \<open>canEdit\<close> to the owner of a photo (and to
  an administrator) who is not authenticated, and the program does not. The stored row
  of alice owns photo 9 and is not authenticated.
\<close>

theorem permissions_counterexample:
  "Edit (newPermissions photo9 (Some alice)) \<noteq> (IsAdmin alice \<or> User.ID alice = OwnerID photo9)
   \<and> User.ID alice = OwnerID photo9
   \<and> Edit (newPermissions photo9 (Some alice)) = False"
  by (simp add: newPermissions_def CanEdit_def alice_def photo9_def)

text \<open>
  C8, amended. For every photo and viewer: \<open>canEdit\<close> holds exactly when there is a
  viewer, the viewer is authenticated, and the viewer is an administrator or the owner
  of the photo; \<open>canDelete\<close> is \<open>canEdit\<close>; \<open>canVote\<close> holds exactly when there is a
  viewer, the viewer is authenticated, is not the owner, and the photo is not in the
  viewer's votes. So the owner cannot vote even without a recorded vote, and a viewer
  who has voted cannot vote again even when not the owner.
\<close>

theorem permissions_amended:
  "Edit (newPermissions photo viewer) =
     (case viewer of
        None \<Rightarrow> False
      | Some u \<Rightarrow> IsAuthenticated u \<and> (IsAdmin u \<or> User.ID u = OwnerID photo))
   \<and> Delete (newPermissions photo viewer) = Edit (newPermissions photo viewer)
   \<and> Vote (newPermissions photo viewer) =
     (case viewer of
        None \<Rightarrow> False
      | Some u \<Rightarrow> IsAuthenticated u \<and> User.ID u \<noteq> OwnerID photo
                  \<and> Photo.ID photo \<notin> set (GetVotes u))"
  by (auto simp: newPermissions_def CanEdit_def CanDelete_def CanVote_def HasVoted_def
      containsID_set split: option.splits)

section \<open>Pagination\<close>

lemma roundHalfEven_bounds:
  assumes "0 < b"
  shows "2 * a - b \<le> 2 * (b * roundHalfEven a b)" and "2 * (b * roundHalfEven a b) \<le> 2 * a + b"
proof -
  define q where "q = a div b"
  define r where "r = a mod b"
  have a: "a = b * q + r" by (simp add: q_def r_def)
  have r: "0 \<le> r" "r < b" using assms by (simp_all add: r_def)
  have rhe: "roundHalfEven a b = q \<and> 2 * r \<le> b \<or> roundHalfEven a b = q + 1 \<and> b \<le> 2 * r"
    by (auto simp: roundHalfEven_def Let_def q_def r_def)
  show "2 * a - b \<le> 2 * (b * roundHalfEven a b)"
    using rhe r a by (auto simp: algebra_simps)
  show "2 * (b * roundHalfEven a b) \<le> 2 * a + b"
    using rhe r a by (auto simp: algebra_simps)
qed

lemma roundHalfEven_exact: "0 < b \<Longrightarrow> roundHalfEven (b * q) b = q"
  by (simp add: roundHalfEven_def)

lemma ilog2_le:
  assumes "0 < a" "0 < b" "a < b * 2 ^ Suc n"
  shows "ilog2 a b \<le> int n"
proof -
  define l where "l = bitlen a - bitlen b"
  show ?thesis
  proof (cases "0 \<le> l")
    case False
    then have "ilog2 a b \<le> l" by (simp add: ilog2_def Let_def l_def)
    with False show ?thesis by simp
  next
    case True
    show ?thesis
    proof (cases "b * 2 ^ nat l \<le> a")
      case True
      with assms have "b * 2 ^ nat l < b * 2 ^ Suc n" by linarith
      then have "(2::int) ^ nat l < 2 ^ Suc n" using assms(2) by simp
      then have "nat l < Suc n"
        using power_less_imp_less_exp [of "2::int" "nat l" "Suc n"] by (simp del: power_Suc)
      moreover have "ilog2 a b = l" using True \<open>0 \<le> l\<close> by (simp add: ilog2_def Let_def l_def)
      ultimately show ?thesis by simp
    next
      case False
      then have res: "ilog2 a b = l - 1" using True by (simp add: ilog2_def Let_def l_def)
      have ba: "2 ^ nat (bitlen a - 1) \<le> a" using bitlen_bounds [OF assms(1)] by simp
      have bb: "b < 2 ^ nat (bitlen b)" using bitlen_bounds [OF assms(2)] by simp
      have "b * 2 ^ Suc n < 2 ^ nat (bitlen b) * 2 ^ Suc n" using bb by simp
      with assms(3) ba have "(2::int) ^ nat (bitlen a - 1) < 2 ^ nat (bitlen b) * 2 ^ Suc n"
        by linarith
      then have "(2::int) ^ nat (bitlen a - 1) < 2 ^ (nat (bitlen b) + Suc n)"
        by (simp add: power_add)
      then have "nat (bitlen a - 1) < nat (bitlen b) + Suc n"
        using power_less_imp_less_exp [of "2::int" "nat (bitlen a - 1)" "nat (bitlen b) + Suc n"]
        by (simp del: power_Suc)
      moreover have "0 \<le> bitlen b" by (rule bitlen_nonneg)
      ultimately have "l - 1 \<le> int n" by (simp add: l_def)
      with res show ?thesis by simp
    qed
  qed
qed


lemma float64_of_int_exact:
  assumes "0 < t" "t < 2 ^ 53"
  shows "\<exists>k. float64_of_int t = F64 (t * 2 ^ k) (- int k)"
proof -
  have "ilog2 t 1 \<le> 52" using ilog2_le [of t 1 52] assms by simp
  then have e: "ilog2 \<bar>t\<bar> 1 - 52 \<le> 0" using assms by simp
  define e where "e = ilog2 \<bar>t\<bar> 1 - 52"
  have r1: "roundHalfEven x 1 = x" for x using roundHalfEven_exact [of 1 x] by simp
  show ?thesis
  proof (cases "e = 0")
    case True
    then have "float64_of_int t = F64 (t * 2 ^ 0) (- int 0)"
      using assms by (simp add: float64_of_int_def float64_round_def Let_def e_def r1)
    then show ?thesis by blast
  next
    case False
    with e have "e < 0" by (simp add: e_def)
    then have "float64_of_int t = F64 (t * 2 ^ nat (- e)) (- int (nat (- e)))"
      using assms by (simp add: float64_of_int_def float64_round_def Let_def e_def r1)
    then show ?thesis by blast
  qed
qed

lemma Ceil_round:
  assumes "0 < t" "t < 2 ^ 53" "0 < b" "12 * a = t * b"
  shows "Ceil (float64_round a b) = (t + 11) div 12"
proof -
  have apos: "0 < a"
  proof (rule ccontr)
    assume "\<not> 0 < a"
    then have "12 * a \<le> 0" by simp
    moreover have "0 < t * b" using assms by simp
    ultimately show False using assms(4) by simp
  qed
  have "12 * a < 2 ^ 53 * b" using assms by simp
  also have "\<dots> < 12 * (b * 2 ^ Suc 49)" using assms(3) by simp
  finally have "a < b * 2 ^ Suc 49" by simp
  then have "ilog2 a b \<le> 49" using ilog2_le [of a b 49] apos assms(3) by simp
  define k where "k = nat (52 - ilog2 a b)"
  have k3: "3 \<le> k" using \<open>ilog2 a b \<le> 49\<close> by (simp add: k_def)
  have e: "ilog2 \<bar>a\<bar> b - 52 = - int k" using \<open>ilog2 a b \<le> 49\<close> apos by (simp add: k_def)
  define m where "m = roundHalfEven (a * 2 ^ k) b"
  have fr: "float64_round a b = F64 m (- int k)"
    using apos k3 e by (simp add: float64_round_def Let_def m_def)
  have lo: "2 * (a * 2 ^ k) - b \<le> 2 * (b * m)" and hi: "2 * (b * m) \<le> 2 * (a * 2 ^ k) + b"
    using roundHalfEven_bounds [OF assms(3), of "a * 2 ^ k"] by (simp_all add: m_def)
  define q where "q = t div 12"
  define r where "r = t mod 12"
  have t: "t = 12 * q + r" and r: "0 \<le> r" "r < 12" by (simp_all add: q_def r_def)
  have p8: "(8::int) \<le> 2 ^ k" using k3 power_increasing [of 3 k "2::int"] by simp
  define P where "P = (2::int) ^ k"
  have Ppos: "0 < P" by (simp add: P_def)
  show ?thesis
  proof (cases "r = 0")
    case True
    then have "12 * a = 12 * (b * q)" using assms(4) t by (simp add: algebra_simps)
    then have "a = b * q" by simp
    then have "m = q * 2 ^ k"
      using roundHalfEven_exact [OF assms(3), of "q * 2 ^ k"] by (simp add: m_def algebra_simps)
    moreover have "(- (q * 2 ^ k)) div 2 ^ k = - q"
      using int_div_pos_eq [of "- (q * 2 ^ k)" "2 ^ k" "- q" 0] by simp
    ultimately have "Ceil (F64 m (- int k)) = q" using k3 by simp
    moreover have "(t + 11) div 12 = q" using t True by simp
    ultimately show ?thesis using fr by simp
  next
    case False
    with r have r1: "1 \<le> r" "r \<le> 11" by simp_all
    have ab: "12 * a = (12 * q + r) * b" using assms(4) t by simp
    have Pr_lo: "8 \<le> P * r" using mult_mono [of 8 P 1 r] p8 r1 by (simp add: P_def)
    have Pr_hi: "P * r \<le> P * 11" using mult_left_mono [of r 11 P] Ppos r1 by simp
    have "12 * (2 * (a * P) - b) \<le> 12 * (2 * (b * m))" using lo by (simp add: P_def)
    then have "2 * P * (12 * a) - 12 * b \<le> 24 * (b * m)" by (simp add: algebra_simps)
    then have "2 * P * ((12 * q + r) * b) - 12 * b \<le> 24 * (b * m)" using ab by simp
    then have "b * (2 * P * (12 * q + r) - 12) \<le> b * (24 * m)" by (simp add: algebra_simps)
    then have "2 * P * (12 * q + r) - 12 \<le> 24 * m" using assms(3) by simp
    then have "24 * (P * q) + 2 * (P * r) - 12 \<le> 24 * m" by (simp add: algebra_simps)
    then have mlo: "P * q < m" using Pr_lo by linarith
    have "12 * (2 * (b * m)) \<le> 12 * (2 * (a * P) + b)" using hi by (simp add: P_def)
    then have "24 * (b * m) \<le> 2 * P * (12 * a) + 12 * b" by (simp add: algebra_simps)
    then have "24 * (b * m) \<le> 2 * P * ((12 * q + r) * b) + 12 * b" using ab by simp
    then have "b * (24 * m) \<le> b * (2 * P * (12 * q + r) + 12)" by (simp add: algebra_simps)
    then have "24 * m \<le> 2 * P * (12 * q + r) + 12" using assms(3) by simp
    then have "24 * m \<le> 24 * (P * q) + 2 * (P * r) + 12" by (simp add: algebra_simps)
    moreover have "8 \<le> P" using p8 by (simp add: P_def)
    ultimately have mhi: "m \<le> P * q + P" using Pr_hi by linarith
    have "(- m) div P = - (q + 1)"
      using int_div_pos_eq [of "- m" P "- (q + 1)" "P * q + P - m"] mlo mhi
      by (simp add: algebra_simps)
    then have "Ceil (F64 m (- int k)) = q + 1" using k3 by (simp add: P_def)
    moreover have "(t + 11) div 12 = q + 1" using t r1 by simp
    ultimately show ?thesis using fr by simp
  qed
qed


lemma float64_of_pageSize: "float64_of_int pageSize = F64 (12 * 2 ^ 49) (- 49)"
  by code_simp

lemma Ceil_div_pageSize:
  assumes "0 \<le> t" "t < 2 ^ 53"
  shows "Ceil (float64_div (float64_of_int t) (float64_of_int pageSize)) = (t + 11) div 12"
proof (cases "t = 0")
  case True
  then show ?thesis
    by (simp add: float64_of_pageSize) (simp add: float64_of_int_def float64_round_def)
next
  case False
  with assms have tpos: "0 < t" by simp
  from float64_of_int_exact [OF tpos assms(2)]
  obtain k where k: "float64_of_int t = F64 (t * 2 ^ k) (- int k)" by blast
  show ?thesis
  proof (cases "k \<le> 49")
    case True
    have "(2::int) ^ (k + (49 - k)) = 2 ^ k * 2 ^ (49 - k)" by (rule power_add)
    moreover have "k + (49 - k) = 49" using True by simp
    ultimately have "(2::int) ^ k * 2 ^ (49 - k) = 2 ^ 49" by simp
    then have "12 * (t * 2 ^ k * 2 ^ (49 - k)) = t * (12 * 2 ^ 49)" by simp
    then have "Ceil (float64_round (t * 2 ^ k * 2 ^ (49 - k)) (12 * 2 ^ 49)) = (t + 11) div 12"
      using Ceil_round [OF tpos assms(2), of "12 * 2 ^ 49" "t * 2 ^ k * 2 ^ (49 - k)"] by simp
    moreover have "nat (49 - int k) = 49 - k" by simp
    ultimately show ?thesis using True k by (simp add: float64_of_pageSize Let_def)
  next
    case False
    have "(2::int) ^ (49 + (k - 49)) = 2 ^ 49 * 2 ^ (k - 49)" by (rule power_add)
    moreover have "49 + (k - 49) = k" using False by simp
    ultimately have "(2::int) ^ 49 * 2 ^ (k - 49) = 2 ^ k" by simp
    then have "12 * (t * 2 ^ k) = t * (12 * 2 ^ 49 * 2 ^ (k - 49))" by simp
    then have "Ceil (float64_round (t * 2 ^ k) (12 * 2 ^ 49 * 2 ^ (k - 49))) = (t + 11) div 12"
      using Ceil_round [OF tpos assms(2), of "12 * 2 ^ 49 * 2 ^ (k - 49)" "t * 2 ^ k"] by simp
    moreover have "nat (int k - 49) = k - 49" by simp
    ultimately show ?thesis using False k by (simp add: float64_of_pageSize Let_def)
  qed
qed

lemma ceiling_div_12: "\<lceil>real_of_int t / 12\<rceil> = (t + 11) div 12"
proof -
  have "\<lceil>real_of_int t / real_of_int 12\<rceil> = - (- t div 12)"
    by (rule ceiling_divide_eq_div)
  then show ?thesis by simp
qed

lemma getOffset_no_overflow:
  assumes "- 768614336404564649 \<le> sint p" "sint p \<le> 768614336404564651"
  shows "sint (getOffset p) = max 0 ((sint p - 1) * 12)"
proof -
  have s1: "sint (p - 1) = sint p - 1"
    using assms by (simp add: sint_word_diff signed_take_bit_int_eq_self)
  have s12: "sint (12 :: int64) = 12" by simp
  have "sint ((p - 1) * 12) = signed_take_bit (LENGTH(64) - 1) ((sint p - 1) * 12)"
    using sint_word_mult [of "p - 1" "12 :: int64"] by (simp only: s1 s12)
  also have "\<dots> = (sint p - 1) * 12"
    by (rule signed_take_bit_int_eq_self) (use assms in simp_all)
  finally have "sint ((p - 1) * 12) = (sint p - 1) * 12" .
  then show ?thesis by (auto simp: getOffset_def Let_def pageSize_def word_sless_alt)
qed


lemma NumPages_small:
  assumes "0 \<le> sint tot" "sint tot < 2 ^ 53"
  shows "sint (NumPages (NewPhotoList items tot page)) = (sint tot + 11) div 12"
proof -
  have "NumPages (NewPhotoList items tot page) = word_of_int ((sint tot + 11) div 12)"
    using Ceil_div_pageSize [OF assms] by (simp add: NewPhotoList_def)
  moreover have "0 \<le> (sint tot + 11) div 12" using assms by simp
  moreover have "(sint tot + 11) div 12 < 2 ^ 63" using assms by simp
  ultimately show ?thesis by (simp add: sint_sbintrunc' signed_take_bit_int_eq_self)
qed

text \<open>
  C5, as the claim states it, fails twice. A negative page number whose product with
  the page size wraps around in 64 bits gets a positive offset, and a total that is
  not a \<open>float64\<close> loses its last bits before the division: 9007199254740997 rows are
  750599937895084 pages of 12, and the program reports 750599937895083.
\<close>

theorem pagination_counterexample:
  "sint (getOffset (- 768614336404564650)) = 9223372036854775804
   \<and> sint (NumPages (NewPhotoList [] 9007199254740997 1)) = 750599937895083
   \<and> \<lceil>(9007199254740997 :: real) / 12\<rceil> = 750599937895084"
proof -
  have "sint (getOffset (- 768614336404564650)) = 9223372036854775804"
    by (simp add: getOffset_def pageSize_def word_sless_alt)
  moreover have "NumPages (NewPhotoList [] 9007199254740997 1) = 750599937895083"
    by code_simp
  moreover have "\<lceil>(9007199254740997 :: real) / 12\<rceil> = 750599937895084"
    by simp
  ultimately show ?thesis by simp
qed

text \<open>
  C5, amended. For every total \<open>T\<close> with \<open>0 \<le> T < 2 ^ 53\<close> a listing reports
  \<open>numPages = ceil (T / 12)\<close>, which is 0 for \<open>T = 0\<close>. For every page number from
  -768614336404564649 to 768614336404564651 (those whose product with 12 fits 64 bits)
  the offset is \<open>(pageNumber - 1) * 12\<close>, or 0 when that is negative: 0 for page 1, for
  page 0 and for the negative page numbers of that range.
\<close>

theorem pagination_amended:
  assumes "0 \<le> sint tot" and "sint tot < 2 ^ 53"
    and "- 768614336404564649 \<le> sint pageNum" and "sint pageNum \<le> 768614336404564651"
  shows "sint (NumPages (NewPhotoList items tot pageNum)) = \<lceil>real_of_int (sint tot) / 12\<rceil>
         \<and> (sint tot = 0 \<longrightarrow> NumPages (NewPhotoList items tot pageNum) = 0)
         \<and> sint (getOffset pageNum) = max 0 ((sint pageNum - 1) * 12)
         \<and> (sint pageNum \<le> 1 \<longrightarrow> getOffset pageNum = 0)"
proof -
  have n: "sint (NumPages (NewPhotoList items tot pageNum)) = (sint tot + 11) div 12"
    using assms(1,2) by (rule NumPages_small)
  have o: "sint (getOffset pageNum) = max 0 ((sint pageNum - 1) * 12)"
    using assms(3,4) by (rule getOffset_no_overflow)
  have "sint tot = 0 \<longrightarrow> sint (NumPages (NewPhotoList items tot pageNum)) = 0"
    using n by simp
  then have z: "sint tot = 0 \<longrightarrow> NumPages (NewPhotoList items tot pageNum) = 0"
    by (auto intro: signed_word_eqI)
  have "sint pageNum \<le> 1 \<longrightarrow> sint (getOffset pageNum) = 0"
    using o by simp
  then have p: "sint pageNum \<le> 1 \<longrightarrow> getOffset pageNum = 0"
    by (auto intro: signed_word_eqI)
  have "sint (NumPages (NewPhotoList items tot pageNum)) = \<lceil>real_of_int (sint tot) / 12\<rceil>"
    using n ceiling_div_12 [of "sint tot"] by (simp only:)
  then show ?thesis using o z p by blast
qed

theorem pagination_amended_witness:
  "0 \<le> sint (25 :: int64) \<and> sint (25 :: int64) < 2 ^ 53
   \<and> - 768614336404564649 \<le> sint (3 :: int64) \<and> sint (3 :: int64) \<le> 768614336404564651
   \<and> sint (NumPages (NewPhotoList [] 25 3)) = 3
   \<and> sint (getOffset 3) = 24"
  using pagination_amended [of 25 3 "[]"] by simp

section \<open>Authentication\<close>

lemma selectOne_Inr: "selectOne rows = Inr row \<Longrightarrow> rows = [row]"
  by (cases rows rule: selectOne.cases) auto

text \<open>
  C9, as the claim states it, fails. The query of \<open>Authenticate\<close> matches the identifier
  against the email and against the name, and \<open>SelectOne\<close> wants one row. With the
  email of alice as the identifier, the rows of alice and of mallory both match, and
  \<open>Authenticate\<close> returns the error of \<open>SelectOne\<close> for the wrong password and for the
  right one alike, while an identifier that no user has gets \<open>(nil, nil)\<close>: the failures
  do not produce the identical result, and the caller learns that the identifier is in
  use.
\<close>

theorem Authenticate_counterexample:
  "Authenticate sampleBcrypt namesakeDB False ''alice@example.com'' ''wrong''
     = Inl ErrMultipleRows
   \<and> Authenticate sampleBcrypt namesakeDB False ''alice@example.com'' ''a''
       = Inl ErrMultipleRows
   \<and> Authenticate sampleBcrypt namesakeDB False ''nobody'' ''wrong'' = Inr None
   \<and> Authenticate sampleBcrypt namesakeDB False ''alice@example.com'' ''wrong''
       \<noteq> Authenticate sampleBcrypt namesakeDB False ''nobody'' ''wrong''"
  by (simp add: Authenticate_def namesakeDB_def sampleDB_def alice_def bob_def carol_def
      mallory_def)

text \<open>
  C9, amended. While the store answers, \<open>Authenticate\<close> returns a user only when that
  user is a stored row that is active, whose name or email is the identifier, and whose
  stored hash the password verifies against. When no active row has the identifier
  (there is no such user, or the user is not active), and when the one active row with
  the identifier has a hash the password does not verify against, the result is the
  same \<open>(nil, nil)\<close>. When two or more active rows have the identifier as name or email,
  the result is the error of \<open>SelectOne\<close>, whatever the password.
\<close>

theorem Authenticate_uniform:
  assumes "\<not> fault"
  shows "(Authenticate bcryptMatches db fault identifier password = Inr (Some user) \<longrightarrow>
            (\<exists>row. row \<in> set (users db) \<and> user = userRow row \<and> IsActive row
                   \<and> (Email row = identifier \<or> User.Name row = identifier)
                   \<and> bcryptMatches (Password row) password))
         \<and> ((\<forall>row. row \<in> set (users db) \<and> IsActive row \<longrightarrow>
                   Email row \<noteq> identifier \<and> User.Name row \<noteq> identifier) \<longrightarrow>
              Authenticate bcryptMatches db fault identifier password = Inr None)
         \<and> (filter (\<lambda>row. IsActive row \<and> (Email row = identifier \<or> User.Name row = identifier))
                    (users db) = [found]
              \<and> \<not> bcryptMatches (Password found) password \<longrightarrow>
              Authenticate bcryptMatches db fault identifier password = Inr None)
         \<and> (1 < length (filter (\<lambda>row. IsActive row
                                       \<and> (Email row = identifier \<or> User.Name row = identifier))
                                 (users db)) \<longrightarrow>
              Authenticate bcryptMatches db fault identifier password = Inl ErrMultipleRows)"
proof (intro conjI impI)
  let ?rows = "filter (\<lambda>row. IsActive row \<and> (Email row = identifier \<or> User.Name row = identifier))
                      (users db)"
  {
    assume ok: "Authenticate bcryptMatches db fault identifier password = Inr (Some user)"
    then obtain row where sel: "selectOne ?rows = Inr row"
      and chk: "CheckPassword bcryptMatches (userRow row) password" and u: "user = userRow row"
      using assms by (auto simp: Authenticate_def split: sum.splits if_splits)
    from selectOne_Inr [OF sel] have "row \<in> set ?rows" by simp
    then have "row \<in> set (users db)" "IsActive row"
      "Email row = identifier \<or> User.Name row = identifier" by auto
    moreover from chk have "bcryptMatches (Password row) password"
      by (simp add: CheckPassword_def userRow_def split: if_splits)
    ultimately show "\<exists>row. row \<in> set (users db) \<and> user = userRow row \<and> IsActive row
                   \<and> (Email row = identifier \<or> User.Name row = identifier)
                   \<and> bcryptMatches (Password row) password"
      using u by blast
  }
  {
    assume "\<forall>row. row \<in> set (users db) \<and> IsActive row \<longrightarrow>
                   Email row \<noteq> identifier \<and> User.Name row \<noteq> identifier"
    then have "?rows = []" by (auto simp: filter_empty_conv)
    then show "Authenticate bcryptMatches db fault identifier password = Inr None"
      using assms by (simp add: Authenticate_def)
  }
  {
    assume "?rows = [found] \<and> \<not> bcryptMatches (Password found) password"
    then show "Authenticate bcryptMatches db fault identifier password = Inr None"
      using assms by (simp add: Authenticate_def CheckPassword_def userRow_def)
  }
  {
    assume "1 < length ?rows"
    then obtain row other rest where "?rows = row # other # rest"
      by (cases ?rows rule: selectOne.cases) auto
    then show "Authenticate bcryptMatches db fault identifier password = Inl ErrMultipleRows"
      using assms by (simp add: Authenticate_def)
  }
qed

theorem Authenticate_uniform_witness:
  "Authenticate sampleBcrypt sampleDB False ''alice'' ''a'' = Inr (Some alice)
   \<and> Authenticate sampleBcrypt sampleDB False ''nobody'' ''a'' = Inr None
   \<and> Authenticate sampleBcrypt sampleDB False ''carol'' ''c'' = Inr None
   \<and> Authenticate sampleBcrypt sampleDB False ''alice'' ''wrong'' = Inr None
   \<and> Authenticate sampleBcrypt namesakeDB False ''alice@example.com'' ''m''
       = Inl ErrMultipleRows"
proof -
  have "\<forall>row. row \<in> set (users sampleDB) \<and> IsActive row \<longrightarrow>
               Email row \<noteq> ''nobody'' \<and> User.Name row \<noteq> ''nobody''"
    by (auto simp: sampleDB_def alice_def bob_def carol_def)
  then have nobody: "Authenticate sampleBcrypt sampleDB False ''nobody'' ''a'' = Inr None"
    using Authenticate_uniform [of False sampleBcrypt sampleDB "''nobody''" "''a''"] by blast
  have "\<forall>row. row \<in> set (users sampleDB) \<and> IsActive row \<longrightarrow>
               Email row \<noteq> ''carol'' \<and> User.Name row \<noteq> ''carol''"
    by (auto simp: sampleDB_def alice_def bob_def carol_def)
  then have carol: "Authenticate sampleBcrypt sampleDB False ''carol'' ''c'' = Inr None"
    using Authenticate_uniform [of False sampleBcrypt sampleDB "''carol''" "''c''"] by blast
  have "filter (\<lambda>row. IsActive row \<and> (Email row = ''alice'' \<or> User.Name row = ''alice''))
               (users sampleDB) = [alice]
        \<and> \<not> sampleBcrypt (Password alice) ''wrong''"
    by (simp add: sampleDB_def alice_def bob_def carol_def sampleBcrypt_def)
  then have wrong: "Authenticate sampleBcrypt sampleDB False ''alice'' ''wrong'' = Inr None"
    using Authenticate_uniform [of False sampleBcrypt sampleDB "''alice''" "''wrong''" _ alice]
    by blast
  have ok: "Authenticate sampleBcrypt sampleDB False ''alice'' ''a'' = Inr (Some alice)"
    by (simp add: Authenticate_def CheckPassword_def userRow_def sampleDB_def alice_def
        bob_def carol_def sampleBcrypt_def)
  have "1 < length (filter (\<lambda>row. IsActive row \<and> (Email row = ''alice@example.com''
                                                    \<or> User.Name row = ''alice@example.com''))
                           (users namesakeDB))"
    by (simp add: namesakeDB_def sampleDB_def alice_def bob_def carol_def mallory_def)
  then have two: "Authenticate sampleBcrypt namesakeDB False ''alice@example.com'' ''m''
                    = Inl ErrMultipleRows"
    using Authenticate_uniform
            [of False sampleBcrypt namesakeDB "''alice@example.com''" "''m''"]
    by blast
  show ?thesis using ok nobody carol wrong two by simp
qed

section \<open>Tag names\<close>







text \<open>
  What the loop of \<open>UpdateTags\<close> returns from any state: it appends to the placeholders
  and to the bound values, and clears the flag when a name is kept.
\<close>

lemma tagLoop_result:
  "tagLoop i raw (args, params, isEmpty) =
     (args @ fst (tagLoop i raw ([], [], True)),
      params @ map StrParam (map ToLower (filter (\<lambda>s. s \<noteq> []) (map TrimSpace raw))),
      isEmpty \<and> filter (\<lambda>s. s \<noteq> []) (map TrimSpace raw) = [])"
proof (induction raw arbitrary: i args params isEmpty)
  case Nil
  then show ?case by simp
next
  case (Cons r raw)
  show ?case
  proof (cases "TrimSpace r = []")
    case True
    then show ?thesis using Cons [of "i + 1" args params isEmpty] by simp
  next
    case False
    then show ?thesis
      using Cons [of "i + 1" "args @ [placeholder (i + 2)]"
                     "params @ [StrParam (ToLower (TrimSpace r))]" False]
        Cons [of "i + 1" "[placeholder (i + 2)]" "[StrParam (ToLower (TrimSpace r))]" False]
      by (simp add: Let_def)
  qed
qed

lemma textParams_StrParam: "textParams (map (StrParam \<circ> f) xs) = map f xs"
  by (induction xs) auto

lemma tagNames_eq: "tagNames raw = map ToLower (filter (\<lambda>s. s \<noteq> []) (map TrimSpace raw))"
  using tagLoop_result [of 0 raw "[''$1'']" "[]" True]
  by (simp add: tagNames_def textParams_StrParam)




text \<open>The values that \<open>UpdateTags\<close> binds: the photo's identifier, then the tag names.\<close>

lemma UpdateTags_params:
  "fst (snd (tagLoop 0 (Tags photo) ([''$1''], [IntParam (Photo.ID photo)], True)))
     = IntParam (Photo.ID photo) # map StrParam (tagNames (Tags photo))"
  using tagLoop_result [of 0 "Tags photo" "[''$1'']" "[IntParam (Photo.ID photo)]" True]
  by (simp add: tagNames_eq)



section \<open>Removing the tags of a photo\<close>






section \<open>Voting\<close>

lemma find_replace:
  assumes "find (\<lambda>row. key row = k) rows = Some old" and "key new = k"
  shows "find (\<lambda>row. key row = k) (map (\<lambda>row. if key row = k then new else row) rows) = Some new"
  using assms by (induction rows) (auto split: if_splits)

lemma getPhoto_found:
  assumes "getPhoto db False idParam = Inr (Some photo)"
  obtains i row where "ParseInt idParam = Some i" and "Photo.ID photo = word_of_int i"
    and "Photo.ID photo \<noteq> 0"
    and "find (\<lambda>row. Photo.ID row = Photo.ID photo) (photos db) = Some row"
    and "photo = photoRow row"
proof -
  from assms obtain i where i: "ParseInt idParam = Some i"
    and g: "defaultPhotoManager_Get db False (word_of_int i) = Inr (Some photo)"
    by (auto simp: getPhoto_def split: option.splits)
  from g have nz: "(word_of_int i :: int64) \<noteq> 0"
    by (auto simp: defaultPhotoManager_Get_def split: if_splits)
  with g obtain row where f: "find (\<lambda>row. Photo.ID row = word_of_int i) (photos db) = Some row"
    and p: "photo = photoRow row"
    by (auto simp: defaultPhotoManager_Get_def)
  from f have "Photo.ID row = word_of_int i" by (auto simp: find_Some_iff)
  with p have "Photo.ID photo = word_of_int i" by (simp add: photoRow_def)
  with i nz f p that show thesis by simp
qed

lemma getPhoto_after_update:
  assumes "getPhoto db False idParam = Inr (Some photo)" and "Photo.ID changed = Photo.ID photo"
  shows "getPhoto (db\<lparr>photos := map (\<lambda>row. if Photo.ID row = Photo.ID photo
                                            then photoRow changed else row) (photos db)\<rparr>)
           False idParam = Inr (Some (photoRow changed))"
proof -
  from assms(1) obtain i row where i: "ParseInt idParam = Some i"
    and id: "Photo.ID photo = word_of_int i" and nz: "Photo.ID photo \<noteq> 0"
    and f: "find (\<lambda>row. Photo.ID row = Photo.ID photo) (photos db) = Some row"
    by (rule getPhoto_found)
  have "Photo.ID (photoRow changed) = Photo.ID photo" using assms(2) by (simp add: photoRow_def)
  from find_replace [of Photo.ID "Photo.ID photo" "photos db" row "photoRow changed", OF f this]
  show ?thesis using i id nz
    by (simp add: getPhoto_def defaultPhotoManager_Get_def photoRow_def)
qed

lemma vote_accepted:
  assumes "IsAuthenticated user" and "getPhoto db False idParam = Inr (Some photo)"
    and "OwnerID photo \<noteq> User.ID user" and "\<not> HasVoted user (Photo.ID photo)"
    and "Photo.ID (fn photo) = Photo.ID photo"
  shows "vote db (False, False, False) (Inr user) idParam fn =
           (StatusOK,
            db\<lparr>photos := map (\<lambda>row. if Photo.ID row = Photo.ID photo then photoRow (fn photo)
                                      else row) (photos db),
               users := map (\<lambda>row. if User.ID row = User.ID user
                                     then userRow (RegisterVote user (Photo.ID photo)) else row)
                            (users db)\<rparr>)"
  using assms
  by (simp add: vote_def checkAuth_def CanVote_def defaultPhotoManager_Update_def
      defaultUserManager_Update_def RegisterVote_def SetVotes_def)

lemma vote_rejected:
  assumes "getPhoto db False idParam = Inr (Some photo)"
  shows "\<not> IsAuthenticated user \<Longrightarrow>
           vote db (False, f2, f3) (Inr user) idParam fn = (StatusUnauthorized, db)"
    and "IsAuthenticated user \<Longrightarrow> OwnerID photo = User.ID user \<or> HasVoted user (Photo.ID photo) \<Longrightarrow>
           vote db (False, f2, f3) (Inr user) idParam fn = (StatusForbidden, db)"
  using assms by (auto simp: vote_def checkAuth_def CanVote_def)

lemma photoRow_loaded:
  assumes "getPhoto db False idParam = Inr (Some photo)"
  shows "Tags photo = []"
  using assms by (rule getPhoto_found) (simp add: photoRow_def)

lemma getPhoto_users: "getPhoto (db\<lparr>users := us\<rparr>) fault idParam = getPhoto db fault idParam"
  by (simp add: getPhoto_def defaultPhotoManager_Get_def split: option.splits)

lemma sint_succ:
  fixes w :: int64
  assumes "sint w < 9223372036854775807"
  shows "sint (w + 1) = sint w + 1"
proof -
  have "sint (w + 1) = signed_take_bit 63 (sint w + 1)"
    by (simp add: sint_word_ariths)
  moreover have "- (2 ^ 63) \<le> sint w + 1" using sint_ge [of w] by simp
  moreover have "sint w + 1 < 2 ^ 63" using assms by simp
  ultimately show ?thesis by (simp add: signed_take_bit_int_eq_self)
qed

lemma getPhoto_sample: "getPhoto sampleDB False ''9'' = Inr (Some photo9)"
  by (simp add: getPhoto_def ParseInt_def digitVal_def decimalDigits_def
      defaultPhotoManager_Get_def sampleDB_def photo9_def photoRow_def)

lemma GetVotes_no_votes: "Votes user = ''{}'' \<Longrightarrow> GetVotes user = []"
  by (simp add: GetVotes_def pgArrToIntSlice_def TrimLeft_def TrimRight_def Atoi_def
      ParseInt_def)

text \<open>
  C2, as the claim states it, fails at the largest counter. \<open>photo.UpVotes += 1\<close> is an
  addition of \<open>int64\<close>, which wraps: with 9223372036854775807 up-votes stored, the vote
  of bob is accepted and the counter stored afterwards is -9223372036854775808, not the
  counter of before increased by 1.
\<close>

theorem vote_overflow_counterexample:
  "getPhoto fullDB False ''9'' = Inr (Some fullPhoto)
   \<and> sint (UpVotes fullPhoto) = 9223372036854775807
   \<and> fst (voteUp fullDB (False, False, False) (Inr (bob\<lparr>IsAuthenticated := True\<rparr>)) ''9'')
       = StatusOK
   \<and> map (\<lambda>row. sint (UpVotes row))
          (photos (snd (voteUp fullDB (False, False, False)
                          (Inr (bob\<lparr>IsAuthenticated := True\<rparr>)) ''9'')))
       = [- 9223372036854775808]"
proof -
  have votes: "GetVotes (bob\<lparr>IsAuthenticated := True\<rparr>) = []"
    by (rule GetVotes_no_votes) (simp add: bob_def)
  have loaded: "getPhoto fullDB False ''9'' = Inr (Some fullPhoto)"
    by (simp add: getPhoto_def ParseInt_def digitVal_def decimalDigits_def
        defaultPhotoManager_Get_def fullDB_def sampleDB_def fullPhoto_def photo9_def
        photoRow_def)
  have run: "voteUp fullDB (False, False, False) (Inr (bob\<lparr>IsAuthenticated := True\<rparr>)) ''9''
             = (StatusOK,
                fullDB\<lparr>photos := map (\<lambda>row. if Photo.ID row = Photo.ID fullPhoto
                                               then photoRow (upVote fullPhoto) else row)
                                      (photos fullDB),
                        users := map (\<lambda>row. if User.ID row
                                                  = User.ID (bob\<lparr>IsAuthenticated := True\<rparr>)
                                              then userRow (RegisterVote
                                                     (bob\<lparr>IsAuthenticated := True\<rparr>)
                                                     (Photo.ID fullPhoto))
                                              else row)
                                     (users fullDB)\<rparr>)"
    unfolding voteUp_def
    by (rule vote_accepted [OF _ loaded])
       (use votes in \<open>simp_all add: HasVoted_def bob_def fullPhoto_def photo9_def upVote_def\<close>)
  have status: "fst (voteUp fullDB (False, False, False)
                         (Inr (bob\<lparr>IsAuthenticated := True\<rparr>)) ''9'') = StatusOK"
    by (simp add: run)
  have "photos (snd (voteUp fullDB (False, False, False)
                       (Inr (bob\<lparr>IsAuthenticated := True\<rparr>)) ''9''))
        = [fullPhoto\<lparr>UpVotes := 9223372036854775807 + 1\<rparr>]"
    unfolding run
    by (simp add: fullDB_def sampleDB_def fullPhoto_def photo9_def photoRow_def upVote_def)
  then have stored: "map (\<lambda>row. sint (UpVotes row))
                       (photos (snd (voteUp fullDB (False, False, False)
                                       (Inr (bob\<lparr>IsAuthenticated := True\<rparr>)) ''9'')))
                     = [- 9223372036854775808]"
    by simp
  have "sint (UpVotes fullPhoto) = 9223372036854775807"
    by (simp add: fullPhoto_def)
  with loaded status stored show ?thesis by blast
qed

text \<open>
  C2, amended. Take a photo that the request finds and a resolved user, with the store
  answering. If the user is authenticated, is not the owner and has not voted on the
  photo, \<open>voteUp\<close> answers OK and the photo read afterwards has its up-votes increased by
  1 in 64 bits and its down-votes as before, \<open>voteDown\<close> likewise with the two counters
  exchanged, and the stored user gets the votes of before followed by the photo's
  identifier. The counter read as an integer is the one of before plus 1 when the one
  of before is below 9223372036854775807. If the user is not authenticated the answer
  is Unauthorized, and if the user is the owner or has voted it is Forbidden; in both
  cases the store is left as it was.
\<close>

theorem vote_registers_once:
  assumes "getPhoto db False idParam = Inr (Some photo)"
  shows "(IsAuthenticated user \<and> OwnerID photo \<noteq> User.ID user
            \<and> \<not> HasVoted user (Photo.ID photo) \<longrightarrow>
          (\<exists>db' photo'.
              voteUp db (False, False, False) (Inr user) idParam = (StatusOK, db')
              \<and> getPhoto db' False idParam = Inr (Some photo')
              \<and> photo' = photo\<lparr>UpVotes := UpVotes photo + 1\<rparr>
              \<and> (sint (UpVotes photo) < 9223372036854775807 \<longrightarrow>
                   sint (UpVotes photo') = sint (UpVotes photo) + 1)
              \<and> users db' = map (\<lambda>row. if User.ID row = User.ID user
                                        then userRow (RegisterVote user (Photo.ID photo))
                                        else row) (users db))
          \<and> (\<exists>db' photo'.
              voteDown db (False, False, False) (Inr user) idParam = (StatusOK, db')
              \<and> getPhoto db' False idParam = Inr (Some photo')
              \<and> photo' = photo\<lparr>DownVotes := DownVotes photo + 1\<rparr>
              \<and> (sint (DownVotes photo) < 9223372036854775807 \<longrightarrow>
                   sint (DownVotes photo') = sint (DownVotes photo) + 1)
              \<and> users db' = map (\<lambda>row. if User.ID row = User.ID user
                                        then userRow (RegisterVote user (Photo.ID photo))
                                        else row) (users db))
          \<and> GetVotes (RegisterVote user (Photo.ID photo)) = GetVotes user @ [Photo.ID photo])
         \<and> (\<not> IsAuthenticated user \<longrightarrow>
              vote db (False, f2, f3) (Inr user) idParam fn = (StatusUnauthorized, db))
         \<and> (IsAuthenticated user
              \<and> (OwnerID photo = User.ID user \<or> HasVoted user (Photo.ID photo)) \<longrightarrow>
              vote db (False, f2, f3) (Inr user) idParam fn = (StatusForbidden, db))"
proof (intro conjI impI)
  assume ok: "IsAuthenticated user \<and> OwnerID photo \<noteq> User.ID user
                \<and> \<not> HasVoted user (Photo.ID photo)"
  have tags: "Tags photo = []" using assms by (rule photoRow_loaded)
  have up: "photoRow (upVote photo) = photo\<lparr>UpVotes := UpVotes photo + 1\<rparr>"
    using tags by (simp add: photoRow_def upVote_def)
  have down: "photoRow (downVote photo) = photo\<lparr>DownVotes := DownVotes photo + 1\<rparr>"
    using tags by (simp add: photoRow_def downVote_def)
  have "\<exists>db'. voteUp db (False, False, False) (Inr user) idParam = (StatusOK, db')
              \<and> getPhoto db' False idParam = Inr (Some (photo\<lparr>UpVotes := UpVotes photo + 1\<rparr>))
              \<and> users db' = map (\<lambda>row. if User.ID row = User.ID user
                                        then userRow (RegisterVote user (Photo.ID photo))
                                        else row) (users db)"
    using ok vote_accepted [of user db idParam photo upVote, OF _ assms]
      getPhoto_after_update [OF assms, of "upVote photo"] up
    by (simp add: voteUp_def upVote_def getPhoto_users)
  then show "\<exists>db' photo'.
              voteUp db (False, False, False) (Inr user) idParam = (StatusOK, db')
              \<and> getPhoto db' False idParam = Inr (Some photo')
              \<and> photo' = photo\<lparr>UpVotes := UpVotes photo + 1\<rparr>
              \<and> (sint (UpVotes photo) < 9223372036854775807 \<longrightarrow>
                   sint (UpVotes photo') = sint (UpVotes photo) + 1)
              \<and> users db' = map (\<lambda>row. if User.ID row = User.ID user
                                        then userRow (RegisterVote user (Photo.ID photo))
                                        else row) (users db)"
    using sint_succ [of "UpVotes photo"] by auto
  have "\<exists>db'. voteDown db (False, False, False) (Inr user) idParam = (StatusOK, db')
              \<and> getPhoto db' False idParam
                  = Inr (Some (photo\<lparr>DownVotes := DownVotes photo + 1\<rparr>))
              \<and> users db' = map (\<lambda>row. if User.ID row = User.ID user
                                        then userRow (RegisterVote user (Photo.ID photo))
                                        else row) (users db)"
    using ok vote_accepted [of user db idParam photo downVote, OF _ assms]
      getPhoto_after_update [OF assms, of "downVote photo"] down
    by (simp add: voteDown_def downVote_def getPhoto_users)
  then show "\<exists>db' photo'.
              voteDown db (False, False, False) (Inr user) idParam = (StatusOK, db')
              \<and> getPhoto db' False idParam = Inr (Some photo')
              \<and> photo' = photo\<lparr>DownVotes := DownVotes photo + 1\<rparr>
              \<and> (sint (DownVotes photo) < 9223372036854775807 \<longrightarrow>
                   sint (DownVotes photo') = sint (DownVotes photo) + 1)
              \<and> users db' = map (\<lambda>row. if User.ID row = User.ID user
                                        then userRow (RegisterVote user (Photo.ID photo))
                                        else row) (users db)"
    using sint_succ [of "DownVotes photo"] by auto
  show "GetVotes (RegisterVote user (Photo.ID photo)) = GetVotes user @ [Photo.ID photo]"
    by (rule GetVotes_RegisterVote)
next
  assume "\<not> IsAuthenticated user"
  then show "vote db (False, f2, f3) (Inr user) idParam fn = (StatusUnauthorized, db)"
    using vote_rejected(1) [OF assms] by simp
next
  assume "IsAuthenticated user \<and> (OwnerID photo = User.ID user \<or> HasVoted user (Photo.ID photo))"
  then show "vote db (False, f2, f3) (Inr user) idParam fn = (StatusForbidden, db)"
    using vote_rejected(2) [OF assms] by simp
qed

theorem vote_registers_once_witness:
  "getPhoto sampleDB False ''9'' = Inr (Some photo9)
   \<and> (\<exists>db' photo'.
          voteUp sampleDB (False, False, False) (Inr (bob\<lparr>IsAuthenticated := True\<rparr>)) ''9''
              = (StatusOK, db')
          \<and> getPhoto db' False ''9'' = Inr (Some photo')
          \<and> photo' = photo9\<lparr>UpVotes := 4\<rparr> \<and> sint (UpVotes photo') = 4)
   \<and> GetVotes (RegisterVote (bob\<lparr>IsAuthenticated := True\<rparr>) 9) = [9]
   \<and> vote sampleDB (False, False, False) (Inr bob) ''9'' upVote = (StatusUnauthorized, sampleDB)
   \<and> vote sampleDB (False, False, False) (Inr (alice\<lparr>IsAuthenticated := True\<rparr>)) ''9'' upVote
        = (StatusForbidden, sampleDB)"
proof -
  have votes: "GetVotes (bob\<lparr>IsAuthenticated := True\<rparr>) = []"
    by (rule GetVotes_no_votes) (simp add: bob_def)
  have b: "IsAuthenticated (bob\<lparr>IsAuthenticated := True\<rparr>)
           \<and> OwnerID photo9 \<noteq> User.ID (bob\<lparr>IsAuthenticated := True\<rparr>)
           \<and> \<not> HasVoted (bob\<lparr>IsAuthenticated := True\<rparr>) (Photo.ID photo9)"
    using votes by (simp add: HasVoted_def bob_def photo9_def)
  have a: "IsAuthenticated (alice\<lparr>IsAuthenticated := True\<rparr>)
           \<and> (OwnerID photo9 = User.ID (alice\<lparr>IsAuthenticated := True\<rparr>)
               \<or> HasVoted (alice\<lparr>IsAuthenticated := True\<rparr>) (Photo.ID photo9))"
    by (simp add: alice_def photo9_def)
  have n: "\<not> IsAuthenticated bob" by (simp add: bob_def)
  have small: "sint (UpVotes photo9) < 9223372036854775807" by (simp add: photo9_def)
  note inst = vote_registers_once [OF getPhoto_sample]
  have "\<exists>db' photo'.
          voteUp sampleDB (False, False, False) (Inr (bob\<lparr>IsAuthenticated := True\<rparr>)) ''9''
              = (StatusOK, db')
          \<and> getPhoto db' False ''9'' = Inr (Some photo')
          \<and> photo' = photo9\<lparr>UpVotes := 4\<rparr> \<and> sint (UpVotes photo') = 4"
    using inst [of "bob\<lparr>IsAuthenticated := True\<rparr>"] b small by (auto simp: photo9_def)
  moreover have "GetVotes (RegisterVote (bob\<lparr>IsAuthenticated := True\<rparr>) 9) = [9]"
    using inst [of "bob\<lparr>IsAuthenticated := True\<rparr>"] b votes by (simp add: photo9_def)
  moreover have "vote sampleDB (False, False, False) (Inr bob) ''9'' upVote
                   = (StatusUnauthorized, sampleDB)"
    using inst [of bob False False upVote] n by blast
  moreover have "vote sampleDB (False, False, False) (Inr (alice\<lparr>IsAuthenticated := True\<rparr>))
                   ''9'' upVote = (StatusForbidden, sampleDB)"
    using inst [of "alice\<lparr>IsAuthenticated := True\<rparr>" False False upVote] a by blast
  ultimately show ?thesis using getPhoto_sample by blast
qed

section \<open>Search\<close>

text \<open>
  The rows of two sub-queries joined by \<open>INTERSECT\<close> are the rows of both, and so on for
  more sub-queries: a row must be found by every one of them.
\<close>

lemma set_intersectRows: "set (intersectRows xs ys) = set xs \<inter> set ys"
  by (auto simp: intersectRows_def)

lemma joinedRows_all:
  assumes "joinedRows db params clauses = Inr rows"
  shows "(x \<in> set rows) = (\<forall>c \<in> set clauses. \<exists>found. clauseRows db params c = Some found \<and> x \<in> set found)"
  using assms
proof (induction db params clauses arbitrary: rows rule: joinedRows.induct)
  case (1 db params)
  then show ?case by simp
next
  case (2 db params c)
  then show ?case by (auto split: option.splits)
next
  case (3 db params c d rest)
  from "3.prems" obtain found others where c: "clauseRows db params c = Some found"
    and o: "joinedRows db params (d # rest) = Inr others"
    and r: "rows = intersectRows found others"
    by (auto split: option.splits sum.splits)
  from "3.IH" [OF c o] c r show ?case by (auto simp: set_intersectRows)
qed

text \<open>
  What the loop reads of a query: the pieces before the first one that is empty once
  trimmed, and of those the first seven.
\<close>

lemma searchLoop_reads:
  "searchLoop num pieces state =
     searchLoop num (take (7 - num) (takeWhile (\<lambda>piece. TrimSpace piece \<noteq> []) pieces)) state"
proof (induction pieces arbitrary: num state)
  case Nil
  then show ?case by simp
next
  case (Cons piece rest)
  obtain clauses params where st: "state = (clauses, params)" by (cases state)
  show ?case
  proof (cases "TrimSpace piece = [] \<or> 6 < num")
    case True
    then show ?thesis using st by (cases "TrimSpace piece = []") auto
  next
    case False
    then have t: "take (7 - num) (piece # takeWhile (\<lambda>piece. TrimSpace piece \<noteq> []) rest)
                  = piece # take (7 - (num + 1)) (takeWhile (\<lambda>piece. TrimSpace piece \<noteq> []) rest)"
    proof -
      from False have "num \<le> 6" by simp
      then have "7 - num = Suc (7 - (num + 1))" by arith
      then show ?thesis by (simp only: take_Suc_Cons)
    qed
    show ?thesis
      using False st t Cons [of "num + 1"] by (simp add: Let_def)
  qed
qed

text \<open>
  Every photo that \<open>Search\<close> returns is found by every sub-query it compiled: the page
  is cut from the rows joined by \<open>INTERSECT\<close>, never from a union.
\<close>

lemma Search_items_satisfy_all:
  assumes "Search db faults pageNum q = Inr (Some result)"
    and "searchLoop 0 (Split q CHR '' '') ([], []) = (clauses, params)"
    and "x \<in> set (Items result)" and "c \<in> set clauses"
  shows "\<exists>found. clauseRows db (params @ [IntParam (word_of_int pageSize),
                                            IntParam (getOffset pageNum)]) c = Some found
                 \<and> x \<in> set found"
proof -
  let ?params = "params @ [IntParam (word_of_int pageSize), IntParam (getOffset pageNum)]"
  from assms(1,2) obtain tot found where
    page: "selectPage db (snd faults) clauses ?params pageSize (getOffset pageNum) = Inr found"
    and res: "result = NewPhotoList found tot pageNum"
    by (auto simp: Search_def split: if_splits sum.splits)
  from page obtain rows where rows: "joinedRows db ?params clauses = Inr rows"
    and f: "found = take (nat pageSize) (drop (nat (sint (getOffset pageNum))) (orderRows rows))"
    by (auto simp: selectPage_def split: if_splits sum.splits)
  from res assms(3) have "x \<in> set found" by (simp add: NewPhotoList_def)
  with f have "x \<in> set (orderRows rows)"
    by (auto dest!: in_set_takeD in_set_dropD)
  then have "x \<in> set rows" by (simp add: orderRows_def)
  with joinedRows_all [OF rows, of x] assms(4) show ?thesis by blast
qed

text \<open>
  C3 at a concrete input. Photo 9 is tagged \<open>cats\<close>. The query \<open>CATS\<close> is one token with no
  prefix, and the claim has it match the tag name without regard to case. The program
  finds nothing: its sub-query compares \<open>t.name LIKE $1\<close> as written, where the title and
  the owner's name are compared in upper case (\<open>SUN\<close> finds the title \<open>Sunset\<close>) and the
  sub-query of \<open>#CATS\<close> compares the tag name in upper case and finds the photo.
\<close>

theorem search_fuzzy_tag_case:
  "Search sampleDB (False, False) 1 ''CATS''
     = Inr (Some \<lparr>Items = [], Total = 0, CurrentPage = 1, NumPages = 0\<rparr>)
   \<and> Search sampleDB (False, False) 1 ''cats''
     = Inr (Some \<lparr>Items = [photo9], Total = 1, CurrentPage = 1, NumPages = 1\<rparr>)
   \<and> Search sampleDB (False, False) 1 ''#CATS''
     = Inr (Some \<lparr>Items = [photo9], Total = 1, CurrentPage = 1, NumPages = 1\<rparr>)
   \<and> Search sampleDB (False, False) 1 ''SUN''
     = Inr (Some \<lparr>Items = [photo9], Total = 1, CurrentPage = 1, NumPages = 1\<rparr>)"
  by code_simp

text \<open>
  C4 at concrete inputs. In \<open>a  b\<close>, with two spaces, the piece after \<open>a\<close> is empty and the
  loop ends there: \<open>b\<close> is not compiled. Of eight tokens seven are compiled, not six. A
  query that starts with a space compiles nothing, and the statement does not parse.
\<close>

theorem search_tokens_evaluated:
  "searchLoop 0 (Split ''a  b'' CHR '' '') ([], []) = ([FuzzyClause 1], [StrParam ''%a%''])
   \<and> fst (searchLoop 0 (Split ''a b c d e f g h'' CHR '' '') ([], []))
       = [FuzzyClause 1, FuzzyClause 2, FuzzyClause 3, FuzzyClause 4, FuzzyClause 5,
          FuzzyClause 6, FuzzyClause 7]
   \<and> Search sampleDB (False, False) 1 '' cats'' = Inl ErrSyntax"
  by code_simp

section \<open>Requests that run together\<close>

text \<open>A handler that takes its four steps alone is \<open>voteRequest\<close>.\<close>

lemma step_alone:
  "step (userID, idParam, fn) (step (userID, idParam, fn) (step (userID, idParam, fn)
     (step (userID, idParam, fn) (db, Arrived))))
   = (snd (voteRequest db userID idParam fn), Answered (fst (voteRequest db userID idParam fn)))"
  by (simp add: voteRequest_def vote_def defaultPhotoManager_Update_def
      defaultUserManager_Update_def split: sum.splits option.splits)

lemma filter_replace:
  assumes "key new = k"
  shows "filter (\<lambda>row. key row = k) (map (\<lambda>row. if key row = k then new else row) rows)
         = map (\<lambda>row. new) (filter (\<lambda>row. key row = k) rows)"
  using assms by (induction rows) auto

lemma getCurrentUser_stored:
  assumes "filter (\<lambda>row. User.ID row = userID) (users db) = [stored]"
    and "IsActive stored" and "userID \<noteq> 0"
  shows "getCurrentUser db False userID = Inr (stored\<lparr>IsAuthenticated := True\<rparr>)"
proof -
  have "filter (\<lambda>row. IsActive row \<and> User.ID row = userID) (users db)
        = filter IsActive (filter (\<lambda>row. User.ID row = userID) (users db))"
    by (induction "users db") (auto simp: conj_commute)
  then have "filter (\<lambda>row. IsActive row \<and> User.ID row = userID) (users db) = [stored]"
    using assms(1,2) by simp
  then show ?thesis
    using assms(3) by (simp add: getCurrentUser_def GetActive_def userRow_def)
qed

lemma getPhoto_Some:
  assumes "getPhoto db fault idParam = Inr (Some photo)"
  shows "map_option word_of_int (ParseInt idParam) = Some (Photo.ID photo)"
proof -
  from assms obtain i where i: "ParseInt idParam = Some i"
    and g: "defaultPhotoManager_Get db fault (word_of_int i) = Inr (Some photo)"
    by (auto simp: getPhoto_def split: option.splits)
  from g obtain row where f: "find (\<lambda>row. Photo.ID row = word_of_int i) (photos db) = Some row"
    and p: "photo = photoRow row"
    by (auto simp: defaultPhotoManager_Get_def split: if_splits)
  from f have "Photo.ID row = word_of_int i" by (auto simp: find_Some_iff)
  with p i show ?thesis by (simp add: photoRow_def)
qed

lemma getCurrentUser_authenticated:
  assumes "getCurrentUser db fault userID = Inr user" and "IsAuthenticated user"
  obtains row where "row \<in> set (users db)" and "User.ID row = userID"
    and "user = (userRow row)\<lparr>IsAuthenticated := True\<rparr>"
proof -
  from assms have nz: "userID \<noteq> 0"
    by (auto simp: getCurrentUser_def anonymousUser_def split: if_splits)
  with assms obtain found where g: "GetActive db fault userID = Inr (Some found)"
    and u: "user = found\<lparr>IsAuthenticated := True\<rparr>"
    by (auto simp: getCurrentUser_def anonymousUser_def split: sum.splits option.splits)
  from g obtain row where
    sel: "selectOne (filter (\<lambda>row. IsActive row \<and> User.ID row = userID) (users db)) = Inr row"
    and f: "found = userRow row"
    by (auto simp: GetActive_def split: if_splits sum.splits)
  from selectOne_Inr [OF sel]
  have "row \<in> set (filter (\<lambda>row. IsActive row \<and> User.ID row = userID) (users db))" by simp
  then have "row \<in> set (users db)" "User.ID row = userID" by auto
  with u f that show thesis by simp
qed

lemma vote_users:
  assumes "vote db faults current idParam fn = (status, db1)"
    and "\<And>photo. Photo.ID (fn photo) = Photo.ID photo"
  shows "status \<noteq> StatusOK \<longrightarrow> users db1 = users db"
    and "status = StatusOK \<longrightarrow>
           (\<exists>user loaded. current = Inr user \<and> IsAuthenticated user
              \<and> getPhoto db (fst faults) idParam = Inr (Some loaded)
              \<and> \<not> HasVoted user (Photo.ID loaded)
              \<and> users db1 = map (\<lambda>row. if User.ID row = User.ID user
                                        then userRow (RegisterVote user (Photo.ID loaded))
                                        else row) (users db))"
  using assms
  by (auto simp: vote_def checkAuth_def CanVote_def defaultPhotoManager_Update_def
      defaultUserManager_Update_def RegisterVote_def SetVotes_def
      split: sum.splits option.splits if_splits)

lemma serveVote_users:
  assumes "serveVote db (faults, userID, idParam, up) = (status, db1)"
  shows "status \<noteq> StatusOK \<longrightarrow> users db1 = users db"
    and "status = StatusOK \<longrightarrow>
           (\<exists>row (loaded :: Photo). row \<in> set (users db) \<and> User.ID row = userID
              \<and> map_option word_of_int (ParseInt idParam) = Some (Photo.ID loaded)
              \<and> Photo.ID loaded \<notin> set (GetVotes row)
              \<and> users db1 = map (\<lambda>other. if User.ID other = userID
                                          then userRow (RegisterVote
                                                 ((userRow row)\<lparr>IsAuthenticated := True\<rparr>)
                                                 (Photo.ID loaded))
                                          else other) (users db))"
proof -
  let ?fn = "if up then upVote else downVote"
  have run: "vote db (snd faults) (getCurrentUser db (fst faults) userID) idParam ?fn
             = (status, db1)"
    using assms by (cases up) (simp_all add: serveVote_def voteUp_def voteDown_def)
  have keep: "\<And>photo. Photo.ID (?fn photo) = Photo.ID photo"
    by (simp add: upVote_def downVote_def)
  show "status \<noteq> StatusOK \<longrightarrow> users db1 = users db"
    using vote_users(1) [OF run keep] .
  show "status = StatusOK \<longrightarrow>
           (\<exists>row (loaded :: Photo). row \<in> set (users db) \<and> User.ID row = userID
              \<and> map_option word_of_int (ParseInt idParam) = Some (Photo.ID loaded)
              \<and> Photo.ID loaded \<notin> set (GetVotes row)
              \<and> users db1 = map (\<lambda>other. if User.ID other = userID
                                          then userRow (RegisterVote
                                                 ((userRow row)\<lparr>IsAuthenticated := True\<rparr>)
                                                 (Photo.ID loaded))
                                          else other) (users db))"
  proof
    assume "status = StatusOK"
    with vote_users(2) [OF run keep] obtain user loaded where
      cur: "getCurrentUser db (fst faults) userID = Inr user" and auth: "IsAuthenticated user"
      and got: "getPhoto db (fst (snd faults)) idParam = Inr (Some loaded)"
      and fresh: "\<not> HasVoted user (Photo.ID loaded)"
      and us: "users db1 = map (\<lambda>row. if User.ID row = User.ID user
                                       then userRow (RegisterVote user (Photo.ID loaded))
                                       else row) (users db)"
      by blast
    from cur auth obtain row where row: "row \<in> set (users db)" "User.ID row = userID"
      and u: "user = (userRow row)\<lparr>IsAuthenticated := True\<rparr>"
      by (rule getCurrentUser_authenticated)
    have "GetVotes user = GetVotes row" using u by (simp add: GetVotes_def userRow_def)
    with fresh have unlisted: "Photo.ID loaded \<notin> set (GetVotes row)"
      by (simp add: HasVoted_def containsID_set)
    have "User.ID user = userID" using u row by (simp add: userRow_def)
    with us u have replaced: "users db1 = map (\<lambda>other. if User.ID other = userID
                                          then userRow (RegisterVote
                                                 ((userRow row)\<lparr>IsAuthenticated := True\<rparr>)
                                                 (Photo.ID loaded))
                                          else other) (users db)"
      by simp
    show "\<exists>row (loaded :: Photo). row \<in> set (users db) \<and> User.ID row = userID
              \<and> map_option word_of_int (ParseInt idParam) = Some (Photo.ID loaded)
              \<and> Photo.ID loaded \<notin> set (GetVotes row)
              \<and> users db1 = map (\<lambda>other. if User.ID other = userID
                                          then userRow (RegisterVote
                                                 ((userRow row)\<lparr>IsAuthenticated := True\<rparr>)
                                                 (Photo.ID loaded))
                                          else other) (users db)"
    proof (intro exI conjI)
      show "row \<in> set (users db)" "User.ID row = userID" by fact+
      show "map_option word_of_int (ParseInt idParam) = Some (Photo.ID loaded)"
        by (rule getPhoto_Some [OF got])
      show "Photo.ID loaded \<notin> set (GetVotes row)" by fact
      show "users db1 = map (\<lambda>other. if User.ID other = userID
                                          then userRow (RegisterVote
                                                 ((userRow row)\<lparr>IsAuthenticated := True\<rparr>)
                                                 (Photo.ID loaded))
                                          else other) (users db)" by fact
    qed
  qed
qed

text \<open>Once every stored row of the user lists the photo, it stays so.\<close>

lemma serveVote_keeps_vote:
  assumes "serveVote db req = (status, db1)"
    and "\<forall>row \<in> set (users db). User.ID row = uid \<longrightarrow> pid \<in> set (GetVotes row)"
  shows "\<forall>row \<in> set (users db1). User.ID row = uid \<longrightarrow> pid \<in> set (GetVotes row)"
proof (cases "status = StatusOK")
  case False
  obtain faults userID idParam up where req: "req = (faults, userID, idParam, up)"
    by (cases req) auto
  from serveVote_users(1) [OF assms(1) [unfolded req]] False assms(2) show ?thesis by simp
next
  case True
  obtain faults userID idParam up where req: "req = (faults, userID, idParam, up)"
    by (cases req) auto
  from serveVote_users(2) [OF assms(1) [unfolded req]] True obtain row and loaded :: Photo where
    row: "row \<in> set (users db)" "User.ID row = userID"
    and us: "users db1 = map (\<lambda>other. if User.ID other = userID
                                          then userRow (RegisterVote
                                                 ((userRow row)\<lparr>IsAuthenticated := True\<rparr>)
                                                 (Photo.ID loaded))
                                          else other) (users db)"
    by blast
  let ?new = "userRow (RegisterVote ((userRow row)\<lparr>IsAuthenticated := True\<rparr>) (Photo.ID loaded))"
  have votes: "GetVotes ?new = GetVotes row @ [Photo.ID loaded]"
  proof -
    have "GetVotes ?new
          = GetVotes (RegisterVote ((userRow row)\<lparr>IsAuthenticated := True\<rparr>) (Photo.ID loaded))"
      by (simp add: GetVotes_def userRow_def)
    also have "\<dots> = GetVotes ((userRow row)\<lparr>IsAuthenticated := True\<rparr>) @ [Photo.ID loaded]"
      by (rule GetVotes_RegisterVote)
    also have "GetVotes ((userRow row)\<lparr>IsAuthenticated := True\<rparr>) = GetVotes row"
      by (simp add: GetVotes_def userRow_def)
    finally show ?thesis .
  qed
  have newid: "User.ID ?new = userID"
    using row by (simp add: userRow_def RegisterVote_def SetVotes_def)
  show ?thesis
  proof (intro ballI impI)
    fix r assume r: "r \<in> set (users db1)" and rid: "User.ID r = uid"
    from r us have "r \<in> (\<lambda>other. if User.ID other = userID then ?new else other) ` set (users db)"
      by simp
    then obtain other where o: "other \<in> set (users db)"
      and r': "r = (if User.ID other = userID then ?new else other)" by blast
    show "pid \<in> set (GetVotes r)"
    proof (cases "User.ID other = userID")
      case True
      with r' have rn: "r = ?new" by simp
      with rid newid have "userID = uid" by simp
      with row assms(2) have "pid \<in> set (GetVotes row)" by simp
      with rn votes show ?thesis by simp
    next
      case False
      with r' have "r = other" by simp
      with o rid assms(2) show ?thesis by simp
    qed
  qed
qed

text \<open>An accepted registration puts the photo on every stored row of the user.\<close>

lemma serveVote_records_vote:
  assumes "serveVote db (faults, uid, idParam, up) = (StatusOK, db1)"
    and "map_option word_of_int (ParseInt idParam) = Some pid"
  shows "\<forall>row \<in> set (users db1). User.ID row = uid \<longrightarrow> pid \<in> set (GetVotes row)"
proof -
  from serveVote_users(2) [OF assms(1)] obtain row and loaded :: Photo where
    row: "row \<in> set (users db)" "User.ID row = uid"
    and lid: "map_option word_of_int (ParseInt idParam) = Some (Photo.ID loaded)"
    and us: "users db1 = map (\<lambda>other. if User.ID other = uid
                                          then userRow (RegisterVote
                                                 ((userRow row)\<lparr>IsAuthenticated := True\<rparr>)
                                                 (Photo.ID loaded))
                                          else other) (users db)"
    by blast
  let ?new = "userRow (RegisterVote ((userRow row)\<lparr>IsAuthenticated := True\<rparr>) (Photo.ID loaded))"
  from lid assms(2) have pid: "Photo.ID loaded = pid" by simp
  have "GetVotes ?new
        = GetVotes (RegisterVote ((userRow row)\<lparr>IsAuthenticated := True\<rparr>) (Photo.ID loaded))"
    by (simp add: GetVotes_def userRow_def)
  then have votes: "pid \<in> set (GetVotes ?new)"
    using pid by (simp add: GetVotes_RegisterVote)
  show ?thesis
  proof (intro ballI impI)
    fix r assume r: "r \<in> set (users db1)" and rid: "User.ID r = uid"
    from r us have "r \<in> (\<lambda>other. if User.ID other = uid then ?new else other) ` set (users db)"
      by simp
    then obtain other where "r = (if User.ID other = uid then ?new else other)" by blast
    with rid have "r = ?new" by (auto split: if_splits)
    with votes show "pid \<in> set (GetVotes r)" by simp
  qed
qed

text \<open>With the photo on every stored row of the user, no request of the pair is accepted.\<close>

lemma serveVote_refuses:
  assumes "serveVote db (faults, uid, idParam, up) = (status, db1)"
    and "map_option word_of_int (ParseInt idParam) = Some pid"
    and "\<forall>row \<in> set (users db). User.ID row = uid \<longrightarrow> pid \<in> set (GetVotes row)"
  shows "status \<noteq> StatusOK"
proof
  assume "status = StatusOK"
  with serveVote_users(2) [OF assms(1)] obtain row and loaded :: Photo where
    row: "row \<in> set (users db)" "User.ID row = uid"
    and lid: "map_option word_of_int (ParseInt idParam) = Some (Photo.ID loaded)"
    and fresh: "Photo.ID loaded \<notin> set (GetVotes row)"
    by blast
  from lid assms(2) have "Photo.ID loaded = pid" by simp
  with fresh row assms(3) show False by auto
qed

lemma runVotes_fst:
  "serveVote db req = (status, db1) \<Longrightarrow>
     fst (runVotes db (req # reqs)) = status # fst (runVotes db1 reqs)"
  by (simp split: prod.splits)

lemma registrations_Cons:
  "registrations uid pid (req # reqs) (status # statuses)
   = (if status = StatusOK \<and> fst (snd req) = uid
         \<and> map_option word_of_int (ParseInt (fst (snd (snd req)))) = Some pid
      then 1 else 0) + registrations uid pid reqs statuses"
  by (simp add: registrations_def)

lemma registrations_none:
  assumes "\<forall>row \<in> set (users db). User.ID row = uid \<longrightarrow> pid \<in> set (GetVotes row)"
  shows "registrations uid pid reqs (fst (runVotes db reqs)) = 0"
  using assms
proof (induction reqs arbitrary: db)
  case Nil
  show ?case by (simp add: registrations_def)
next
  case (Cons req reqs)
  obtain status db1 where s: "serveVote db req = (status, db1)" by (cases "serveVote db req")
  obtain faults userID idParam up where req: "req = (faults, userID, idParam, up)"
    by (cases req) auto
  have inv: "\<forall>row \<in> set (users db1). User.ID row = uid \<longrightarrow> pid \<in> set (GetVotes row)"
    using serveVote_keeps_vote [OF s Cons.prems] .
  have rest: "registrations uid pid reqs (fst (runVotes db1 reqs)) = 0"
    using Cons.IH [OF inv] .
  have "\<not> (status = StatusOK \<and> userID = uid
            \<and> map_option word_of_int (ParseInt idParam) = Some pid)"
    using serveVote_refuses [of db faults uid idParam up status db1 pid] s req Cons.prems
    by auto
  then show ?case
    using rest req unfolding runVotes_fst [OF s] by (simp add: registrations_Cons)
qed

lemma registrations_once:
  "registrations uid pid reqs (fst (runVotes db reqs)) \<le> 1"
proof (induction reqs arbitrary: db)
  case Nil
  show ?case by (simp add: registrations_def)
next
  case (Cons req reqs)
  obtain status db1 where s: "serveVote db req = (status, db1)" by (cases "serveVote db req")
  obtain faults userID idParam up where req: "req = (faults, userID, idParam, up)"
    by (cases req) auto
  show ?case
  proof (cases "status = StatusOK \<and> userID = uid
                 \<and> map_option word_of_int (ParseInt idParam) = Some pid")
    case True
    then have "\<forall>row \<in> set (users db1). User.ID row = uid \<longrightarrow> pid \<in> set (GetVotes row)"
      using serveVote_records_vote [of db faults uid idParam up db1 pid] s req by simp
    then have "registrations uid pid reqs (fst (runVotes db1 reqs)) = 0"
      by (rule registrations_none)
    then show ?thesis using req True unfolding runVotes_fst [OF s] by (simp add: registrations_Cons)
  next
    case False
    then show ?thesis
      using req Cons.IH [of db1] unfolding runVotes_fst [OF s]
      by (auto simp: registrations_Cons)
  qed
qed


text \<open>
  Two requests that are served one after the other are the two requests under the
  schedule that lets the first take its four steps before the second begins.
\<close>

lemma interleave_turn:
  "interleave (True # schedule) first second (db, p1, p2)
     = interleave schedule first second
         (fst (step first (db, p1)), snd (step first (db, p1)), p2)"
  "interleave (False # schedule) first second (db, p1, p2)
     = interleave schedule first second
         (fst (step second (db, p2)), p1, snd (step second (db, p2)))"
  by (simp_all split: prod.splits)

lemma interleave_sequential:
  "interleave [True, True, True, True, False, False, False, False]
      (userID, idParam, fn) (userID', idParam', fn') (db, Arrived, Arrived)
   = (snd (voteRequest (snd (voteRequest db userID idParam fn)) userID' idParam' fn'),
      Answered (fst (voteRequest db userID idParam fn)),
      Answered (fst (voteRequest (snd (voteRequest db userID idParam fn)) userID' idParam' fn')))"
proof -
  have "interleave [True, True, True, True, False, False, False, False]
          (userID, idParam, fn) (userID', idParam', fn') (db, Arrived, Arrived)
        = interleave [False, False, False, False]
            (userID, idParam, fn) (userID', idParam', fn')
            (snd (voteRequest db userID idParam fn),
             Answered (fst (voteRequest db userID idParam fn)), Arrived)"
    unfolding interleave_turn(1) prod.collapse step_alone by simp
  also have "\<dots> = (snd (voteRequest (snd (voteRequest db userID idParam fn)) userID' idParam' fn'),
      Answered (fst (voteRequest db userID idParam fn)),
      Answered (fst (voteRequest (snd (voteRequest db userID idParam fn)) userID' idParam' fn')))"
    unfolding interleave_turn(2) prod.collapse step_alone by simp
  finally show ?thesis .
qed

lemma serveVote_voteRequest:
  "serveVote db ((False, False, False, False), userID, idParam, up)
     = voteRequest db userID idParam (if up then upVote else downVote)"
  by (simp add: serveVote_def voteRequest_def voteUp_def voteDown_def)

lemma two_votes_in_sequence:
  assumes "filter (\<lambda>row. User.ID row = userID) (users db) = [stored]"
    and "IsActive stored" and "userID \<noteq> 0"
    and "getPhoto db False idParam = Inr (Some photo)"
    and "OwnerID photo \<noteq> userID" and "\<not> HasVoted stored (Photo.ID photo)"
    and "fn = upVote \<or> fn = downVote"
  shows "\<exists>db1. voteRequest db userID idParam fn = (StatusOK, db1)
               \<and> voteRequest db1 userID idParam again = (StatusForbidden, db1)
               \<and> getPhoto db1 False idParam = Inr (Some (fn photo))"
proof -
  let ?u = "stored\<lparr>IsAuthenticated := True\<rparr>"
  let ?new = "userRow (RegisterVote ?u (Photo.ID photo))"
  define db1 where "db1 = db\<lparr>photos := map (\<lambda>row. if Photo.ID row = Photo.ID photo
                                                    then photoRow (fn photo) else row) (photos db),
                                users := map (\<lambda>row. if User.ID row = User.ID ?u then ?new else row)
                                             (users db)\<rparr>"
  have uid: "User.ID stored = userID"
  proof -
    have "stored \<in> set (filter (\<lambda>row. User.ID row = userID) (users db))"
      using assms(1) by simp
    then show ?thesis by simp
  qed
  have cur: "getCurrentUser db False userID = Inr ?u"
    using assms(1-3) by (rule getCurrentUser_stored)
  have fnid: "Photo.ID (fn photo) = Photo.ID photo"
    using assms(7) by (auto simp: upVote_def downVote_def)
  have notvoted: "\<not> HasVoted ?u (Photo.ID photo)"
    using assms(6) by (simp add: HasVoted_def GetVotes_def)
  have first: "voteRequest db userID idParam fn = (StatusOK, db1)"
    unfolding voteRequest_def cur db1_def
    by (rule vote_accepted) (use assms(4,5) uid fnid notvoted in simp_all)
  have tags: "Tags photo = []" using assms(4) by (rule photoRow_loaded)
  then have row: "photoRow (fn photo) = fn photo"
    using assms(7) by (auto simp: photoRow_def upVote_def downVote_def)
  have photo1: "getPhoto db1 False idParam = Inr (Some (fn photo))"
    unfolding db1_def using getPhoto_after_update [OF assms(4) fnid] row
    by (simp add: getPhoto_users)
  have newid: "User.ID ?new = userID"
    using uid by (simp add: userRow_def RegisterVote_def SetVotes_def)
  have "filter (\<lambda>row. User.ID row = userID) (users db1) = [?new]"
    using filter_replace [of User.ID ?new userID "users db"] newid uid assms(1)
    by (simp add: db1_def)
  moreover have "IsActive ?new"
    using assms(2) by (simp add: userRow_def RegisterVote_def SetVotes_def)
  ultimately have cur1: "getCurrentUser db1 False userID = Inr (?new\<lparr>IsAuthenticated := True\<rparr>)"
    using assms(3) by (rule getCurrentUser_stored)
  have "GetVotes (?new\<lparr>IsAuthenticated := True\<rparr>) = GetVotes (RegisterVote ?u (Photo.ID photo))"
    by (simp add: GetVotes_def userRow_def)
  then have voted: "HasVoted (?new\<lparr>IsAuthenticated := True\<rparr>) (Photo.ID photo)"
    by (simp add: HasVoted_def GetVotes_RegisterVote containsID_set)
  have pid: "Photo.ID (fn photo) = Photo.ID photo" by (rule fnid)
  have second: "voteRequest db1 userID idParam again = (StatusForbidden, db1)"
    unfolding voteRequest_def cur1
    by (rule vote_rejected(2) [OF photo1]) (use voted pid in simp_all)
  from first second photo1 show ?thesis by blast
qed


text \<open>
  C1, as the claim states it, fails. Two requests of bob to vote photo 9 up run
  together: both resolve the user and pass \<open>CanVote\<close> before either has saved the
  vote list, the second loads the photo after the first has saved it, and the two
  answer OK. The counter goes from 3 to 5, and one vote is recorded.
\<close>

theorem concurrent_votes_counterexample:
  "interleave [True, False, True, True, False, False, True, False]
      (5, ''9'', upVote) (5, ''9'', upVote) (sampleDB, Arrived, Arrived)
   = (sampleDB\<lparr>photos := [photo9\<lparr>UpVotes := 5\<rparr>],
                users := [alice, bob\<lparr>Votes := ''{9}''\<rparr>, carol]\<rparr>,
      Answered StatusOK, Answered StatusOK)
   \<and> UpVotes photo9 = 3"
  by code_simp

text \<open>
  C1, amended. When vote requests are served one after the other, then over any run of
  them, from any store and with any failures of the store on the way, the registrations
  of a user for a photo that are answered OK number at most one. When two requests of a
  user to vote on a photo are served one after the other, the store answering, the user
  stored once and active, not the owner and without a vote on the photo, and the
  counter below 9223372036854775807: the first answers OK, the second is rejected as
  Forbidden and leaves the store as the first left it, and the photo read afterwards
  has the one counter increased by 1, so that the two counters, as integers, add up to
  1 more than before. Nothing in the program orders two requests that run together.
\<close>

theorem votes_in_sequence:
  "registrations uid pid reqs (fst (runVotes db0 reqs)) \<le> 1
   \<and> (filter (\<lambda>row. User.ID row = userID) (users db) = [stored]
        \<and> IsActive stored \<and> userID \<noteq> 0
        \<and> getPhoto db False idParam = Inr (Some photo)
        \<and> OwnerID photo \<noteq> userID \<and> \<not> HasVoted stored (Photo.ID photo)
        \<and> sint (if up then UpVotes photo else DownVotes photo) < 9223372036854775807 \<longrightarrow>
      (\<exists>db1 photo1.
          runVotes db [((False, False, False, False), userID, idParam, up),
                       ((False, False, False, False), userID, idParam, again)]
            = ([StatusOK, StatusForbidden], db1)
          \<and> getPhoto db1 False idParam = Inr (Some photo1)
          \<and> photo1 = (if up then photo\<lparr>UpVotes := UpVotes photo + 1\<rparr>
                       else photo\<lparr>DownVotes := DownVotes photo + 1\<rparr>)
          \<and> sint (UpVotes photo1) + sint (DownVotes photo1)
              = sint (UpVotes photo) + sint (DownVotes photo) + 1))"
proof (intro conjI impI)
  show "registrations uid pid reqs (fst (runVotes db0 reqs)) \<le> 1"
    by (rule registrations_once)
next
  assume h: "filter (\<lambda>row. User.ID row = userID) (users db) = [stored]
        \<and> IsActive stored \<and> userID \<noteq> 0
        \<and> getPhoto db False idParam = Inr (Some photo)
        \<and> OwnerID photo \<noteq> userID \<and> \<not> HasVoted stored (Photo.ID photo)
        \<and> sint (if up then UpVotes photo else DownVotes photo) < 9223372036854775807"
  let ?fn = "if up then upVote else downVote"
  let ?again = "if again then upVote else downVote"
  have "?fn = upVote \<or> ?fn = downVote" by simp
  with h obtain db1 where first: "voteRequest db userID idParam ?fn = (StatusOK, db1)"
    and second: "voteRequest db1 userID idParam ?again = (StatusForbidden, db1)"
    and read: "getPhoto db1 False idParam = Inr (Some (?fn photo))"
    using two_votes_in_sequence [of userID db stored idParam photo ?fn ?again] by blast
  have run: "runVotes db [((False, False, False, False), userID, idParam, up),
                          ((False, False, False, False), userID, idParam, again)]
             = ([StatusOK, StatusForbidden], db1)"
    by (simp add: serveVote_voteRequest first second del: if_split)
  have shape: "?fn photo = (if up then photo\<lparr>UpVotes := UpVotes photo + 1\<rparr>
                            else photo\<lparr>DownVotes := DownVotes photo + 1\<rparr>)"
    by (simp add: upVote_def downVote_def)
  have count: "sint (UpVotes (?fn photo)) + sint (DownVotes (?fn photo))
               = sint (UpVotes photo) + sint (DownVotes photo) + 1"
  proof (cases up)
    case True
    with h have "sint (UpVotes photo) < 9223372036854775807" by simp
    from sint_succ [OF this] True show ?thesis by (simp add: upVote_def)
  next
    case False
    with h have "sint (DownVotes photo) < 9223372036854775807" by simp
    from sint_succ [OF this] False show ?thesis by (simp add: downVote_def)
  qed
  show "\<exists>db1 photo1.
          runVotes db [((False, False, False, False), userID, idParam, up),
                       ((False, False, False, False), userID, idParam, again)]
            = ([StatusOK, StatusForbidden], db1)
          \<and> getPhoto db1 False idParam = Inr (Some photo1)
          \<and> photo1 = (if up then photo\<lparr>UpVotes := UpVotes photo + 1\<rparr>
                       else photo\<lparr>DownVotes := DownVotes photo + 1\<rparr>)
          \<and> sint (UpVotes photo1) + sint (DownVotes photo1)
              = sint (UpVotes photo) + sint (DownVotes photo) + 1"
  proof (intro exI conjI)
    show "runVotes db [((False, False, False, False), userID, idParam, up),
                       ((False, False, False, False), userID, idParam, again)]
            = ([StatusOK, StatusForbidden], db1)" by (rule run)
    show "getPhoto db1 False idParam = Inr (Some (?fn photo))" by (rule read)
    show "?fn photo = (if up then photo\<lparr>UpVotes := UpVotes photo + 1\<rparr>
                       else photo\<lparr>DownVotes := DownVotes photo + 1\<rparr>)" by (rule shape)
    show "sint (UpVotes (?fn photo)) + sint (DownVotes (?fn photo))
              = sint (UpVotes photo) + sint (DownVotes photo) + 1" by (rule count)
  qed
qed

theorem votes_in_sequence_witness:
  "filter (\<lambda>row. User.ID row = 5) (users sampleDB) = [bob] \<and> IsActive bob
   \<and> getPhoto sampleDB False ''9'' = Inr (Some photo9)
   \<and> OwnerID photo9 \<noteq> 5 \<and> \<not> HasVoted bob (Photo.ID photo9)
   \<and> sint (UpVotes photo9) < 9223372036854775807
   \<and> (\<exists>db1. runVotes sampleDB [((False, False, False, False), 5, ''9'', True),
                                ((False, False, False, False), 5, ''9'', False)]
              = ([StatusOK, StatusForbidden], db1)
            \<and> getPhoto db1 False ''9'' = Inr (Some (photo9\<lparr>UpVotes := 4\<rparr>)))
   \<and> registrations 5 9 [((False, False, False, False), 5, ''9'', True),
                         ((False, False, False, False), 5, ''9'', False)]
        (fst (runVotes sampleDB [((False, False, False, False), 5, ''9'', True),
                                 ((False, False, False, False), 5, ''9'', False)])) \<le> 1"
proof -
  have rows: "filter (\<lambda>row. User.ID row = 5) (users sampleDB) = [bob]"
    by (simp add: sampleDB_def alice_def bob_def carol_def)
  have active: "IsActive bob" by (simp add: bob_def)
  have owner: "OwnerID photo9 \<noteq> 5" by (simp add: photo9_def)
  have fresh: "\<not> HasVoted bob (Photo.ID photo9)"
    using GetVotes_no_votes [of bob] by (simp add: HasVoted_def bob_def)
  have small: "sint (UpVotes photo9) < 9223372036854775807" by (simp add: photo9_def)
  note inst = votes_in_sequence
    [of 5 9 "[((False, False, False, False), 5, ''9'', True),
              ((False, False, False, False), 5, ''9'', False)]" sampleDB
        5 sampleDB bob "''9''" photo9 True False]
  have "\<exists>db1. runVotes sampleDB [((False, False, False, False), 5, ''9'', True),
                                ((False, False, False, False), 5, ''9'', False)]
              = ([StatusOK, StatusForbidden], db1)
            \<and> getPhoto db1 False ''9'' = Inr (Some (photo9\<lparr>UpVotes := 4\<rparr>))"
    using inst rows active getPhoto_sample owner fresh small by (auto simp: photo9_def)
  moreover have "registrations 5 9 [((False, False, False, False), 5, ''9'', True),
                         ((False, False, False, False), 5, ''9'', False)]
        (fst (runVotes sampleDB [((False, False, False, False), 5, ''9'', True),
                                 ((False, False, False, False), 5, ''9'', False)])) \<le> 1"
    using inst by blast
  ultimately show ?thesis using rows active getPhoto_sample owner fresh small by blast
qed

end
